theory Spec2Isabelle
  imports Complex_Main "HOL-Library.Multiset" "HOL-Library.AList"
begin

section \<open>Values shared by the index service and the recommenders\<close>

text \<open>
  The Python code computes with numpy arrays of 32 and 64 bit floats. The embedding
  idealises every float as a real number: a vector is a list of reals and a
  two-dimensional array is the list of its rows. No statement below depends on rounding.
\<close>

type_synonym vec = "real list"

text \<open>The exceptions the modelled code paths can raise.\<close>

datatype py_error =
  ValueError | AssertionError | KeyError | UnpicklingError | FileNotFoundError | RuntimeError

section \<open>The flat L2 index of the faiss library\<close>

text \<open>
  \<^verbatim>\<open>faiss.IndexFlatL2(d)\<close> is library code. It stores the added rows in insertion order
  (\<open>ntotal\<close> of them) and keeps its own dimension \<open>d\<close>. Its Python wrapper asserts
  \<open>d == self.d\<close> before \<open>add\<close> and \<open>search\<close>, and \<open>k > 0\<close> before \<open>search\<close>.
\<close>

record flat_index =
  index_d :: nat
  index_xb :: "vec list"

definition IndexFlatL2 :: "nat \<Rightarrow> flat_index" where
  "IndexFlatL2 n = \<lparr>index_d = n, index_xb = []\<rparr>"

definition ntotal :: "flat_index \<Rightarrow> nat" where
  "ntotal ix = length (index_xb ix)"

definition index_add :: "flat_index \<Rightarrow> vec list \<Rightarrow> py_error + flat_index" where
  "index_add ix x =
     (if list_all (\<lambda>v. length v = index_d ix) x
      then Inr (ix\<lparr>index_xb := index_xb ix @ x\<rparr>)
      else Inl AssertionError)"

definition l2_sqr :: "vec \<Rightarrow> vec \<Rightarrow> real" where
  "l2_sqr q v = (\<Sum>(a, b) \<leftarrow> zip q v. (a - b)\<^sup>2)"

text \<open>
  \<open>search\<close> of one query row: the \<open>k\<close> stored rows of least squared Euclidean distance,
  as (distance, slot) pairs by ascending distance. Rows at equal distance are listed by
  ascending slot here; the library fixes no order among them.
\<close>

definition index_search :: "flat_index \<Rightarrow> vec \<Rightarrow> int \<Rightarrow> py_error + (real \<times> nat) list" where
  "index_search ix q k =
     (if length q \<noteq> index_d ix \<or> k \<le> 0 then Inl AssertionError
      else Inr (take (nat k)
             (sort_key fst (map (\<lambda>i. (l2_sqr q (index_xb ix ! i), i)) [0..<ntotal ix]))))"

section \<open>FAISSService\<close>

text \<open>
  The service object: the faiss index, the dict from index slot to article id (an
  association list in insertion order, as a Python dict is) and the configured
  dimension. A method that mutates the object returns the object as the call leaves it
  next to its outcome, so that a raise in the middle of a method shows what was already
  written.
\<close>

record faiss_service =
  index :: flat_index
  article_id_map :: "(nat \<times> int) list"
  dimension :: nat

definition initialize_index :: "faiss_service \<Rightarrow> faiss_service" where
  "initialize_index s = s\<lparr>index := IndexFlatL2 (dimension s)\<rparr>"

definition new_service :: "nat \<Rightarrow> faiss_service" where
  "new_service n = \<lparr>index = IndexFlatL2 n, article_id_map = [], dimension = n\<rparr>"

text \<open>\<^verbatim>\<open>for i, article_id in enumerate(article_ids): self.article_id_map[start_idx + i] = article_id\<close>\<close>

fun map_ids :: "(nat \<times> int) list \<Rightarrow> nat \<Rightarrow> int list \<Rightarrow> (nat \<times> int) list" where
  "map_ids m start [] = m"
| "map_ids m start (a # as) = map_ids (AList.update start a m) (Suc start) as"

definition add_embeddings ::
  "faiss_service \<Rightarrow> vec list \<Rightarrow> int list \<Rightarrow> (py_error + unit) \<times> faiss_service" where
  "add_embeddings s embeddings article_ids =
     (if length embeddings \<noteq> length article_ids then (Inl ValueError, s)
      else
        let start_idx = ntotal (index s) in
        case index_add (index s) embeddings of
          Inl e \<Rightarrow> (Inl e, s)
        | Inr ix \<Rightarrow>
            (Inr (), s\<lparr>index := ix,
                       article_id_map := map_ids (article_id_map s) start_idx article_ids\<rparr>))"

text \<open>The loop of \<open>search\<close> and \<open>search_by_embedding\<close> over the hits of the index.\<close>

fun collect_results :: "(nat \<times> int) list \<Rightarrow> (real \<times> nat) list \<Rightarrow> (int \<times> real) list" where
  "collect_results m [] = []"
| "collect_results m ((dst, idx) # hits) =
     (case map_of m idx of
        Some article_id \<Rightarrow> (article_id, dst) # collect_results m hits
      | None \<Rightarrow> collect_results m hits)"

definition search_by_embedding ::
  "faiss_service \<Rightarrow> vec \<Rightarrow> int \<Rightarrow> py_error + (int \<times> real) list" where
  "search_by_embedding s embedding top_k =
     (if ntotal (index s) = 0 then Inr []
      else
        let k = min top_k (int (ntotal (index s))) in
        case index_search (index s) embedding k of
          Inl e \<Rightarrow> Inl e
        | Inr hits \<Rightarrow> Inr (collect_results (article_id_map s) hits))"

text \<open>
  \<open>search\<close> embeds the query text first. The sentence-transformers model is library
  code: \<open>generate_embedding\<close> is taken as a parameter, a function that returns the
  embedding of a text or raises.
\<close>

definition search ::
  "faiss_service \<Rightarrow> (string \<Rightarrow> py_error + vec) \<Rightarrow> string \<Rightarrow> int \<Rightarrow> py_error + (int \<times> real) list" where
  "search s generate_embedding query top_k =
     (if ntotal (index s) = 0 then Inr []
      else
        case generate_embedding query of
          Inl e \<Rightarrow> Inl e
        | Inr query_embedding \<Rightarrow>
            let k = min top_k (int (ntotal (index s))) in
            (case index_search (index s) query_embedding k of
               Inl e \<Rightarrow> Inl e
             | Inr hits \<Rightarrow> Inr (collect_results (article_id_map s) hits)))"

record index_stats =
  total_vectors :: nat
  stats_dimension :: nat
  articles_indexed :: nat

definition get_index_stats :: "faiss_service \<Rightarrow> index_stats" where
  "get_index_stats s =
     \<lparr>total_vectors = ntotal (index s),
      stats_dimension = dimension s,
      articles_indexed = length (article_id_map s)\<rparr>"

section \<open>Rebuilding from the stored embeddings\<close>

text \<open>
  A row of the \<open>faiss_embeddings\<close> table carries the bytes of a pickled embedding. The
  bytes are represented by what decoding them gives: \<open>NoBytes\<close> is a falsy blob
  (\<open>None\<close> or \<open>b''\<close>), \<open>BadBytes\<close> is a blob on which \<open>pickle.loads\<close> (or, in the
  rebuild, the conversion \<open>np.array(vec, dtype="float32")\<close>) raises, and \<open>VecBytes v\<close>
  is a blob that decodes to the array with the entries \<open>v\<close>.
\<close>

datatype row_blob = NoBytes | BadBytes | VecBytes vec

text \<open>
  \<open>np.vstack\<close> of rows: numpy raises a \<open>ValueError\<close> unless all rows have one length.
\<close>

definition np_vstack :: "vec list \<Rightarrow> py_error + vec list" where
  "np_vstack vs =
     (case vs of
        [] \<Rightarrow> Inl ValueError
      | v # rest \<Rightarrow> if list_all (\<lambda>w. length w = length v) rest then Inr vs else Inl ValueError)"

text \<open>
  The loop of \<open>rebuild_from_embeddings\<close> over the rows: the two lists it appends to.
\<close>

fun decode_rows :: "(int \<times> row_blob) list \<Rightarrow> vec list \<times> int list" where
  "decode_rows [] = ([], [])"
| "decode_rows ((article_id, blob) # rows) =
     (case blob of
        NoBytes \<Rightarrow> decode_rows rows
      | BadBytes \<Rightarrow> decode_rows rows
      | VecBytes v \<Rightarrow>
          (case decode_rows rows of (vectors, article_ids) \<Rightarrow> (v # vectors, article_id # article_ids)))"

definition rebuild_from_embeddings ::
  "faiss_service \<Rightarrow> (int \<times> row_blob) list \<Rightarrow> (py_error + unit) \<times> faiss_service" where
  "rebuild_from_embeddings s rows =
     (let s0 = (initialize_index s)\<lparr>article_id_map := []\<rparr> in
      if rows = [] then (Inr (), s0)
      else
        case decode_rows rows of (vectors, article_ids) \<Rightarrow>
          if vectors = [] then (Inr (), s0)
          else
            case np_vstack vectors of
              Inl e \<Rightarrow> (Inl e, s0)
            | Inr matrix \<Rightarrow>
                (case index_add (index s0) matrix of
                   Inl e \<Rightarrow> (Inl e, s0)
                 | Inr ix \<Rightarrow>
                     (Inr (), s0\<lparr>index := ix, article_id_map := map_ids [] 0 article_ids\<rparr>)))"

section \<open>Snapshots\<close>

text \<open>
  \<open>save_index\<close> pickles a dict with the entries \<open>'index'\<close> (the bytes of
  \<open>faiss.serialize_index\<close>) and \<open>'article_id_map'\<close> into a file; \<open>load_index\<close> reads it
  back. The bytes are again represented by what the libraries decode them to:
  \<open>faiss.deserialize_index\<close> returns the serialised index or raises, and \<open>pickle.load\<close>
  raises or returns a dict in which either entry may be missing. The file system maps a
  path to the content of the file, if there is one.
\<close>

datatype index_bytes = Serialized flat_index | Junk

datatype blob = Garbage | IndexData "index_bytes option" "(nat \<times> int) list option"

type_synonym files = "string \<rightharpoonup> blob"

definition serialize_index :: "flat_index \<Rightarrow> index_bytes" where
  "serialize_index ix = Serialized ix"

definition deserialize_index :: "index_bytes \<Rightarrow> py_error + flat_index" where
  "deserialize_index b = (case b of Serialized ix \<Rightarrow> Inr ix | Junk \<Rightarrow> Inl RuntimeError)"

definition pickle_load :: "files \<Rightarrow> string \<Rightarrow> py_error + (index_bytes option \<times> (nat \<times> int) list option)" where
  "pickle_load fs filepath =
     (case fs filepath of
        None \<Rightarrow> Inl FileNotFoundError
      | Some Garbage \<Rightarrow> Inl UnpicklingError
      | Some (IndexData i m) \<Rightarrow> Inr (i, m))"

definition save_index :: "faiss_service \<Rightarrow> files \<Rightarrow> string \<Rightarrow> (py_error + unit) \<times> files" where
  "save_index s fs filepath =
     (let index_data = IndexData (Some (serialize_index (index s))) (Some (article_id_map s))
      in (Inr (), fs(filepath \<mapsto> index_data)))"

definition load_index ::
  "faiss_service \<Rightarrow> files \<Rightarrow> string \<Rightarrow> (py_error + unit) \<times> faiss_service" where
  "load_index s fs filepath =
     (case pickle_load fs filepath of
        Inl e \<Rightarrow> (Inl e, s)
      | Inr (i, m) \<Rightarrow>
          (case i of
             None \<Rightarrow> (Inl KeyError, s)
           | Some b \<Rightarrow>
               (case deserialize_index b of
                  Inl e \<Rightarrow> (Inl e, s)
                | Inr ix \<Rightarrow>
                    (case m of
                       None \<Rightarrow> (Inl KeyError, s\<lparr>index := ix\<rparr>)
                     | Some am \<Rightarrow> (Inr (), s\<lparr>index := ix, article_id_map := am\<rparr>)))))"

section \<open>The content recommender\<close>

text \<open>
  The rows of the tables \<open>user_feedback\<close> and \<open>faiss_embeddings\<close>, with the columns the
  recommenders read. A query \<open>.all()\<close> is the list of the rows it returns and
  \<open>.first()\<close> is the first matching row, if any.
\<close>

record user_feedback =
  fb_user_id :: int
  fb_article_id :: int
  fb_rating :: int

record faiss_embedding =
  emb_article_id :: int
  embedding_vector :: row_blob

text \<open>
  The loop of \<open>_content_based_recs\<close> over the liked rows. Here the unpickled value is
  appended as it is; a blob that is falsy or does not unpickle is passed over.
\<close>

fun liked_embeddings :: "faiss_embedding list \<Rightarrow> user_feedback list \<Rightarrow> vec list" where
  "liked_embeddings table [] = []"
| "liked_embeddings table (fb # liked) =
     (case find (\<lambda>e. emb_article_id e = fb_article_id fb) table of
        None \<Rightarrow> liked_embeddings table liked
      | Some emb_row \<Rightarrow>
          (case embedding_vector emb_row of
             VecBytes v \<Rightarrow> v # liked_embeddings table liked
           | _ \<Rightarrow> liked_embeddings table liked))"

text \<open>\<open>np.mean(matrix, axis=0)\<close>: the mean of every column.\<close>

definition np_mean_axis0 :: "vec list \<Rightarrow> vec" where
  "np_mean_axis0 m =
     (case m of
        [] \<Rightarrow> []
      | r # _ \<Rightarrow> map (\<lambda>j. (\<Sum>row \<leftarrow> m. row ! j) / real (length m)) [0..<length r])"

definition content_based_recs ::
  "faiss_service \<Rightarrow> user_feedback list \<Rightarrow> faiss_embedding list \<Rightarrow> int \<Rightarrow> int
     \<Rightarrow> py_error + (int \<times> real) list" where
  "content_based_recs s feedback table user_id top_k =
     (let liked = filter (\<lambda>fb. fb_user_id fb = user_id \<and> fb_rating fb \<ge> 4) feedback in
      if liked = [] then Inr []
      else
        let embeddings = liked_embeddings table liked in
        if embeddings = [] then Inr []
        else
          case np_vstack embeddings of
            Inl e \<Rightarrow> Inl e
          | Inr m \<Rightarrow> search_by_embedding s (np_mean_axis0 m) top_k)"

section \<open>The hybrid ranker\<close>

text \<open>A slice \<open>xs[:k]\<close>: a negative \<open>k\<close> counts from the end.\<close>

definition py_take :: "int \<Rightarrow> 'a list \<Rightarrow> 'a list" where
  "py_take k xs = (if 0 \<le> k then take (nat k) xs else take (nat (int (length xs) + k)) xs)"

text \<open>
  Python fixes no iteration order for a \<open>set\<close>. The order in which
  \<open>set(content_ids + collab_recs)\<close> is iterated is a parameter of the model: any list
  without repetitions that has the elements of the set.
\<close>

definition set_iteration :: "'a list \<Rightarrow> 'a list \<Rightarrow> bool" where
  "set_iteration xs c \<longleftrightarrow> distinct c \<and> set c = set xs"

text \<open>
  The body of the loop \<open>for aid in combined\<close> of \<open>hybrid_recommendations\<close>: the score
  starts at 0 and gains 0.7 and 0.3.
\<close>

definition fused_score :: "int list \<Rightarrow> int list \<Rightarrow> int \<Rightarrow> real" where
  "fused_score content_ids collab_recs aid =
     (let s0 = 0;
          s1 = (if aid \<in> set content_ids then s0 + 0.7 else s0);
          s2 = (if aid \<in> set collab_recs then s1 + 0.3 else s1)
      in s2)"

text \<open>
  \<open>ranked_ids\<close> of \<open>hybrid_recommendations\<close>: the keys of \<open>scores\<close>, in the order the set
  was iterated, sorted by descending score with Python's stable \<open>sorted\<close>, cut to the
  first \<open>k\<close>. An empty set takes the other branch (the most recent articles), which
  computes no ranking: \<open>None\<close>.
\<close>

definition hybrid_ranked_ids ::
  "int list \<Rightarrow> (int \<times> real) list \<Rightarrow> int list \<Rightarrow> int \<Rightarrow> int list option" where
  "hybrid_ranked_ids combined content_recs collab_recs k =
     (let content_ids = map fst content_recs in
      if combined = [] then None
      else Some (py_take k (sort_key (\<lambda>x. - fused_score content_ids collab_recs x) combined)))"

section \<open>The collaborative recommender\<close>

text \<open>
  \<open>np.linalg.norm\<close> of a row and the product of two rows, as \<open>matrix @ target\<close> forms it
  for every row.
\<close>

definition np_norm :: "vec \<Rightarrow> real" where
  "np_norm v = sqrt (\<Sum>x \<leftarrow> v. x\<^sup>2)"

definition dot :: "vec \<Rightarrow> vec \<Rightarrow> real" where
  "dot u v = (\<Sum>(a, b) \<leftarrow> zip u v. a * b)"

text \<open>The dict \<open>{x: i for i, x in enumerate(xs)}\<close>.\<close>

definition enumerate_index :: "int list \<Rightarrow> (int \<times> nat) list" where
  "enumerate_index xs = zip xs [0..<length xs]"

text \<open>
  The loop \<open>matrix[user_index[r.user_id], article_index[r.article_id]] = r.rating\<close>: a
  later row for the same user and article overwrites an earlier one. A key missing from
  a dict would raise.
\<close>

fun fill_matrix ::
  "(int \<times> nat) list \<Rightarrow> (int \<times> nat) list \<Rightarrow> vec list \<Rightarrow> user_feedback list \<Rightarrow> py_error + vec list" where
  "fill_matrix user_index article_index matrix [] = Inr matrix"
| "fill_matrix user_index article_index matrix (r # rows) =
     (case map_of user_index (fb_user_id r) of
        None \<Rightarrow> Inl KeyError
      | Some i \<Rightarrow>
          (case map_of article_index (fb_article_id r) of
             None \<Rightarrow> Inl KeyError
           | Some j \<Rightarrow>
               fill_matrix user_index article_index
                 (matrix[i := (matrix ! i)[j := real_of_int (fb_rating r)]]) rows))"

text \<open>
  \<open>norms = np.linalg.norm(matrix, axis=1) * (np.linalg.norm(target) + 1e-6) + 1e-6\<close> and
  \<open>sims = (matrix @ target) / norms\<close>.
\<close>

definition similarities :: "vec list \<Rightarrow> vec \<Rightarrow> vec" where
  "similarities matrix target =
     (let norms = map (\<lambda>row. np_norm row * (np_norm target + 1 / 10 ^ 6) + 1 / 10 ^ 6) matrix
      in map (\<lambda>(row, n). dot row target / n) (zip matrix norms))"

text \<open>\<open>sims @ matrix\<close>: one entry for each of the \<open>ncols\<close> columns.\<close>

definition vec_matmul :: "vec \<Rightarrow> vec list \<Rightarrow> nat \<Rightarrow> vec" where
  "vec_matmul sims matrix ncols =
     map (\<lambda>j. \<Sum>(s, row) \<leftarrow> zip sims matrix. s * row ! j) [0..<ncols]"

text \<open>The loop that sets the score of every article the user has rated to 0.\<close>

fun zero_rated :: "(int \<times> nat) list \<Rightarrow> int \<Rightarrow> vec \<Rightarrow> user_feedback list \<Rightarrow> vec" where
  "zero_rated article_index user_id scores_vec [] = scores_vec"
| "zero_rated article_index user_id scores_vec (r # rows) =
     (if fb_user_id r = user_id then
        (case map_of article_index (fb_article_id r) of
           Some j \<Rightarrow> zero_rated article_index user_id (scores_vec[j := 0]) rows
         | None \<Rightarrow> zero_rated article_index user_id scores_vec rows)
      else zero_rated article_index user_id scores_vec rows)"

text \<open>
  \<open>sorted({r.user_id for r in rows})\<close> and \<open>sorted({r.article_id for r in rows})\<close>, the
  rating matrix, and \<open>scores_vec\<close> as it stands after the zeroing loop (\<open>None\<close> when
  the function has returned early: no rows, or a user without rows).
\<close>

definition collab_users :: "user_feedback list \<Rightarrow> int list" where
  "collab_users rows = sort (remdups (map fb_user_id rows))"

definition collab_articles :: "user_feedback list \<Rightarrow> int list" where
  "collab_articles rows = sort (remdups (map fb_article_id rows))"

definition rating_matrix :: "user_feedback list \<Rightarrow> py_error + vec list" where
  "rating_matrix rows =
     (let users = collab_users rows; articles = collab_articles rows in
      fill_matrix (enumerate_index users) (enumerate_index articles)
        (replicate (length users) (replicate (length articles) 0)) rows)"

definition collab_scores :: "user_feedback list \<Rightarrow> int \<Rightarrow> py_error + vec option" where
  "collab_scores rows user_id =
     (if rows = [] then Inr None
      else
        case map_of (enumerate_index (collab_users rows)) user_id of
          None \<Rightarrow> Inr None
        | Some t \<Rightarrow>
            (case rating_matrix rows of
               Inl e \<Rightarrow> Inl e
             | Inr matrix \<Rightarrow>
                 let target = matrix ! t;
                     sims = similarities matrix target;
                     scores_vec = vec_matmul sims matrix (length (collab_articles rows))
                 in Inr (Some (zero_rated (enumerate_index (collab_articles rows)) user_id
                                 scores_vec rows))))"

text \<open>
  \<open>argsort\<close> of numpy is library code, and its default sort fixes no order among equal
  entries. It is a parameter of the model: any function that returns the indices of its
  argument ordered by ascending entry. \<open>stable_argsort\<close> is one such function.
\<close>

definition valid_argsort :: "(vec \<Rightarrow> nat list) \<Rightarrow> bool" where
  "valid_argsort argsort \<longleftrightarrow>
     (\<forall>xs. mset (argsort xs) = mset [0..<length xs] \<and> sorted (map (\<lambda>i. xs ! i) (argsort xs)))"

definition stable_argsort :: "vec \<Rightarrow> nat list" where
  "stable_argsort xs = sort_key (\<lambda>i. xs ! i) [0..<length xs]"

text \<open>
  \<open>top_indices = scores_vec.argsort()[::-1][:top_k]\<close> and
  \<open>[articles[i] for i in top_indices if scores_vec[i] > 0]\<close>.
\<close>

definition collaborative_recs ::
  "(vec \<Rightarrow> nat list) \<Rightarrow> user_feedback list \<Rightarrow> int \<Rightarrow> int \<Rightarrow> py_error + int list" where
  "collaborative_recs argsort rows user_id top_k =
     (case collab_scores rows user_id of
        Inl e \<Rightarrow> Inl e
      | Inr None \<Rightarrow> Inr []
      | Inr (Some scores_vec) \<Rightarrow>
          let top_indices = py_take top_k (rev (argsort scores_vec))
          in Inr (map (\<lambda>i. collab_articles rows ! i) (filter (\<lambda>i. scores_vec ! i > 0) top_indices)))"

section \<open>Notions of the specification\<close>

text \<open>
  The rows of a table whose bytes decode, in table order, as (article id, vector) pairs,
  and the (article id, vector) pairs an index state holds: the two notions the rebuild
  is specified with.
\<close>

definition decoded_pairs :: "(int \<times> row_blob) list \<Rightarrow> (int \<times> vec) list" where
  "decoded_pairs rows =
     concat (map (\<lambda>(article_id, blob). case blob of VecBytes v \<Rightarrow> [(article_id, v)] | _ \<Rightarrow> []) rows)"

definition stored_pairs :: "faiss_service \<Rightarrow> (int \<times> vec) multiset" where
  "stored_pairs s =
     mset (map (\<lambda>(slot, article_id). (article_id, index_xb (index s) ! slot)) (article_id_map s))"

text \<open>
  The notions the content recommender is specified with: the stored vector of an
  article, the liked rows of a user (rating at least 4), the vectors that resolve for
  them, and the element-wise mean of vectors of length \<open>n\<close>.
\<close>

definition stored_vector :: "faiss_embedding list \<Rightarrow> int \<Rightarrow> vec option" where
  "stored_vector table a =
     (case find (\<lambda>e. emb_article_id e = a) table of
        None \<Rightarrow> None
      | Some e \<Rightarrow> (case embedding_vector e of VecBytes v \<Rightarrow> Some v | _ \<Rightarrow> None))"

definition liked_rows :: "user_feedback list \<Rightarrow> int \<Rightarrow> user_feedback list" where
  "liked_rows feedback u = filter (\<lambda>fb. fb_user_id fb = u \<and> 4 \<le> fb_rating fb) feedback"

definition resolved_vectors :: "user_feedback list \<Rightarrow> faiss_embedding list \<Rightarrow> int \<Rightarrow> vec list" where
  "resolved_vectors feedback table u =
     List.map_filter (\<lambda>fb. stored_vector table (fb_article_id fb)) (liked_rows feedback u)"

definition elementwise_mean :: "nat \<Rightarrow> vec list \<Rightarrow> vec" where
  "elementwise_mean n vs = map (\<lambda>j. sum_list (map (\<lambda>v. v ! j) vs) / real (length vs)) [0..<n]"

section \<open>Example data\<close>

definition example_service :: faiss_service where
  "example_service =
     \<lparr>index = \<lparr>index_d = 2, index_xb = [[0, 0], [1, 1]]\<rparr>,
      article_id_map = [(0, 10), (1, 11)], dimension = 2\<rparr>"

definition example_partial_service :: faiss_service where
  "example_partial_service =
     \<lparr>index = \<lparr>index_d = 2, index_xb = [[0, 0], [5, 5]]\<rparr>,
      article_id_map = [(0, 10)], dimension = 2\<rparr>"

definition example_wide_service :: faiss_service where
  "example_wide_service =
     \<lparr>index = \<lparr>index_d = 3, index_xb = [[1, 2, 3]]\<rparr>,
      article_id_map = [(0, 5)], dimension = 3\<rparr>"

text \<open>
  The state of a service configured for dimension 2 after it has loaded the snapshot of
  \<open>example_wide_service\<close>.
\<close>

definition example_loaded_service :: faiss_service where
  "example_loaded_service =
     \<lparr>index = \<lparr>index_d = 3, index_xb = [[1, 2, 3]]\<rparr>,
      article_id_map = [(0, 5)], dimension = 2\<rparr>"

definition example_rows :: "(int \<times> row_blob) list" where
  "example_rows = [(4, VecBytes [1, 2]), (8, BadBytes), (6, NoBytes), (9, VecBytes [3, 4])]"

definition example_feedback :: "user_feedback list" where
  "example_feedback =
     [\<lparr>fb_user_id = 1, fb_article_id = 10, fb_rating = 5\<rparr>,
      \<lparr>fb_user_id = 1, fb_article_id = 11, fb_rating = 4\<rparr>,
      \<lparr>fb_user_id = 1, fb_article_id = 12, fb_rating = 5\<rparr>,
      \<lparr>fb_user_id = 1, fb_article_id = 13, fb_rating = 2\<rparr>,
      \<lparr>fb_user_id = 2, fb_article_id = 10, fb_rating = 3\<rparr>,
      \<lparr>fb_user_id = 3, fb_article_id = 12, fb_rating = 5\<rparr>]"

definition example_table :: "faiss_embedding list" where
  "example_table =
     [\<lparr>emb_article_id = 10, embedding_vector = VecBytes [0, 0]\<rparr>,
      \<lparr>emb_article_id = 11, embedding_vector = VecBytes [2, 3]\<rparr>,
      \<lparr>emb_article_id = 13, embedding_vector = VecBytes [9, 9]\<rparr>]"

definition example_ratings :: "user_feedback list" where
  "example_ratings =
     [\<lparr>fb_user_id = 1, fb_article_id = 1, fb_rating = 3\<rparr>,
      \<lparr>fb_user_id = 1, fb_article_id = 2, fb_rating = 4\<rparr>,
      \<lparr>fb_user_id = 2, fb_article_id = 1, fb_rating = 3\<rparr>]"

section \<open>Insertion\<close>

lemma add_embeddings_count_mismatch:
  "length embeddings \<noteq> length article_ids \<Longrightarrow>
     add_embeddings s embeddings article_ids = (Inl ValueError, s)"
  by (simp add: add_embeddings_def)

lemma add_embeddings_dim_mismatch:
  assumes "length embeddings = length article_ids"
    and "v \<in> set embeddings" and "length v \<noteq> index_d (index s)"
  shows "add_embeddings s embeddings article_ids = (Inl AssertionError, s)"
proof -
  have "\<not> list_all (\<lambda>v. length v = index_d (index s)) embeddings"
    using assms(2,3) by (auto simp: list_all_iff)
  then show ?thesis
    using assms(1) by (simp add: add_embeddings_def index_add_def)
qed

text \<open>
  Every state built by the constructor, by insertion and by rebuilding holds an index of
  the configured dimension.
\<close>

lemma new_service_dimension: "index_d (index (new_service n)) = dimension (new_service n)"
  by (simp add: new_service_def IndexFlatL2_def)

lemma add_embeddings_dimension:
  "index_d (index s) = dimension s \<Longrightarrow>
     index_d (index (snd (add_embeddings s embeddings article_ids)))
       = dimension (snd (add_embeddings s embeddings article_ids))"
  by (auto simp: add_embeddings_def index_add_def Let_def split: sum.splits)

lemma add_embeddings_accepts:
  assumes "length embeddings = length article_ids"
    and "\<forall>v \<in> set embeddings. length v = index_d (index s)"
  shows "add_embeddings s embeddings article_ids
           = (Inr (), s\<lparr>index := (index s)\<lparr>index_xb := index_xb (index s) @ embeddings\<rparr>,
                        article_id_map :=
                          map_ids (article_id_map s) (ntotal (index s)) article_ids\<rparr>)"
  using assms by (simp add: add_embeddings_def index_add_def list_all_iff Let_def)

text \<open>
  Claim C7, as amended. An insertion whose vector count differs from its article id
  count, or one of whose vectors has a length other than the dimension of the index the
  service holds, raises (a \<open>ValueError\<close> for the counts, the library's \<open>AssertionError\<close>
  for the dimension) and leaves the service object as it was, \<open>total_vectors\<close> included.
  Where the index has the configured dimension \<open>D\<close>, as it has in every state built by
  the constructor, by insertion and by rebuilding, a vector of a length other than \<open>D\<close>
  is therefore rejected. An insertion with matching counts and vectors of the dimension
  of the index is accepted, whatever the configured dimension is.
\<close>

theorem add_embeddings_rejects_and_preserves:
  "(length embeddings \<noteq> length article_ids
      \<or> (\<exists>v \<in> set embeddings. length v \<noteq> index_d (index s)) \<longrightarrow>
        (\<exists>e. add_embeddings s embeddings article_ids = (Inl e, s))
        \<and> total_vectors (get_index_stats (snd (add_embeddings s embeddings article_ids)))
            = total_vectors (get_index_stats s))
   \<and> (index_d (index s) = dimension s
        \<and> (\<exists>v \<in> set embeddings. length v \<noteq> dimension s) \<longrightarrow>
        (\<exists>e. add_embeddings s embeddings article_ids = (Inl e, s)))
   \<and> (length embeddings = length article_ids
        \<and> (\<forall>v \<in> set embeddings. length v = index_d (index s)) \<longrightarrow>
        fst (add_embeddings s embeddings article_ids) = Inr ()
        \<and> total_vectors (get_index_stats (snd (add_embeddings s embeddings article_ids)))
            = total_vectors (get_index_stats s) + length embeddings)"
proof -
  have rej: "\<exists>e. add_embeddings s embeddings article_ids = (Inl e, s)"
    if "length embeddings \<noteq> length article_ids
          \<or> (\<exists>v \<in> set embeddings. length v \<noteq> index_d (index s))"
  proof (cases "length embeddings = length article_ids")
    case False
    then show ?thesis by (simp add: add_embeddings_count_mismatch)
  next
    case True
    with that obtain v where "v \<in> set embeddings" "length v \<noteq> index_d (index s)"
      by blast
    with True show ?thesis by (simp add: add_embeddings_dim_mismatch)
  qed
  have same: "total_vectors (get_index_stats (snd (add_embeddings s embeddings article_ids)))
            = total_vectors (get_index_stats s)"
    if "\<exists>e. add_embeddings s embeddings article_ids = (Inl e, s)"
    using that by auto
  have acc: "fst (add_embeddings s embeddings article_ids) = Inr ()
        \<and> total_vectors (get_index_stats (snd (add_embeddings s embeddings article_ids)))
            = total_vectors (get_index_stats s) + length embeddings"
    if "length embeddings = length article_ids
        \<and> (\<forall>v \<in> set embeddings. length v = index_d (index s))"
    using that by (simp add: add_embeddings_accepts get_index_stats_def ntotal_def)
  show ?thesis
  proof (intro conjI impI)
    assume a: "length embeddings \<noteq> length article_ids
                 \<or> (\<exists>v \<in> set embeddings. length v \<noteq> index_d (index s))"
    show "\<exists>e. add_embeddings s embeddings article_ids = (Inl e, s)"
      by (rule rej [OF a])
    show "total_vectors (get_index_stats (snd (add_embeddings s embeddings article_ids)))
            = total_vectors (get_index_stats s)"
      by (rule same [OF rej [OF a]])
  next
    assume "index_d (index s) = dimension s
              \<and> (\<exists>v \<in> set embeddings. length v \<noteq> dimension s)"
    then have "\<exists>v \<in> set embeddings. length v \<noteq> index_d (index s)" by simp
    then show "\<exists>e. add_embeddings s embeddings article_ids = (Inl e, s)"
      by (intro rej disjI2)
  next
    assume b: "length embeddings = length article_ids
                 \<and> (\<forall>v \<in> set embeddings. length v = index_d (index s))"
    show "fst (add_embeddings s embeddings article_ids) = Inr ()"
      by (rule acc [OF b, THEN conjunct1])
    show "total_vectors (get_index_stats (snd (add_embeddings s embeddings article_ids)))
            = total_vectors (get_index_stats s) + length embeddings"
      by (rule acc [OF b, THEN conjunct2])
  qed
qed

theorem add_embeddings_rejects_witness:
  "(\<exists>e. add_embeddings example_service [[1, 2, 3]] [7] = (Inl e, example_service))
   \<and> total_vectors (get_index_stats (snd (add_embeddings example_service [[1, 2, 3]] [7]))) = 2
   \<and> (\<exists>e. add_embeddings example_service [[1, 2]] [7, 8] = (Inl e, example_service))
   \<and> (\<exists>e. add_embeddings example_loaded_service [[1, 2]] [7] = (Inl e, example_loaded_service))
   \<and> fst (add_embeddings example_service [[1, 2]] [7]) = Inr ()"
proof -
  note wrong = add_embeddings_rejects_and_preserves [of "[[1, 2, 3]]" "[7]" example_service]
  note count = add_embeddings_rejects_and_preserves [of "[[1, 2]]" "[7, 8]" example_service]
  note loaded = add_embeddings_rejects_and_preserves [of "[[1, 2]]" "[7]" example_loaded_service]
  note right = add_embeddings_rejects_and_preserves [of "[[1, 2]]" "[7]" example_service]
  have a: "length [[1, 2, 3 :: real]] \<noteq> length [7 :: int]
           \<or> (\<exists>v \<in> set [[1, 2, 3 :: real]]. length v \<noteq> index_d (index example_service))"
    by (simp add: example_service_def)
  have b: "length [[1, 2 :: real]] \<noteq> length [7, 8 :: int]
           \<or> (\<exists>v \<in> set [[1, 2 :: real]]. length v \<noteq> index_d (index example_service))"
    by simp
  have c: "length [[1, 2 :: real]] \<noteq> length [7 :: int]
           \<or> (\<exists>v \<in> set [[1, 2 :: real]]. length v \<noteq> index_d (index example_loaded_service))"
    by (simp add: example_loaded_service_def)
  have d: "length [[1, 2 :: real]] = length [7 :: int]
           \<and> (\<forall>v \<in> set [[1, 2 :: real]]. length v = index_d (index example_service))"
    by (simp add: example_service_def)
  have n: "total_vectors (get_index_stats example_service) = 2"
    by (simp add: get_index_stats_def example_service_def ntotal_def)
  note w = wrong [THEN conjunct1, THEN mp, OF a]
  have c1: "\<exists>e. add_embeddings example_service [[1, 2, 3]] [7] = (Inl e, example_service)"
    by (rule w [THEN conjunct1])
  have c2: "total_vectors (get_index_stats (snd (add_embeddings example_service [[1, 2, 3]] [7])))
              = 2"
    using w [THEN conjunct2] n by (rule trans)
  have c3: "\<exists>e. add_embeddings example_service [[1, 2]] [7, 8] = (Inl e, example_service)"
    by (rule count [THEN conjunct1, THEN mp, OF b, THEN conjunct1])
  have c4: "\<exists>e. add_embeddings example_loaded_service [[1, 2]] [7]
                  = (Inl e, example_loaded_service)"
    by (rule loaded [THEN conjunct1, THEN mp, OF c, THEN conjunct1])
  have c5: "fst (add_embeddings example_service [[1, 2]] [7]) = Inr ()"
    by (rule right [THEN conjunct2, THEN conjunct2, THEN mp, OF d, THEN conjunct1])
  from c1 c2 c3 c4 c5 show ?thesis by (intro conjI)
qed

section \<open>Search\<close>

lemma collect_results_filter:
  "collect_results m hits =
     map (\<lambda>h. (the (map_of m (snd h)), fst h)) (filter (\<lambda>h. map_of m (snd h) \<noteq> None) hits)"
  by (induction m hits rule: collect_results.induct) (auto split: option.splits)

lemma length_collect_results: "length (collect_results m hits) \<le> length hits"
  by (simp add: collect_results_filter)

lemma sorted_collect_results:
  "sorted (map fst hits) \<Longrightarrow> sorted (map snd (collect_results m hits))"
  by (simp add: collect_results_filter comp_def sorted_filter)

lemma index_search_hits:
  assumes "index_search ix q k = Inr hits"
  shows "length hits = min (nat k) (ntotal ix)" and "sorted (map fst hits)"
    and "\<forall>h \<in> set hits. snd h < ntotal ix \<and> fst h = l2_sqr q (index_xb ix ! snd h)"
proof -
  let ?all = "sort_key fst (map (\<lambda>i. (l2_sqr q (index_xb ix ! i), i)) [0..<ntotal ix])"
  from assms have h: "hits = take (nat k) ?all"
    by (simp add: index_search_def split: if_splits)
  show "length hits = min (nat k) (ntotal ix)" by (simp add: h)
  have "sorted (map fst ?all)" by simp
  then show "sorted (map fst hits)" unfolding h take_map [symmetric] by (rule sorted_wrt_take)
  have "set hits \<subseteq> set ?all" unfolding h by (rule set_take_subset)
  then show "\<forall>h \<in> set hits. snd h < ntotal ix \<and> fst h = l2_sqr q (index_xb ix ! snd h)"
    by auto
qed

lemma index_search_returns:
  "length q = index_d ix \<Longrightarrow> 0 < k \<Longrightarrow> \<exists>hits. index_search ix q k = Inr hits"
  by (simp add: index_search_def)

text \<open>
  Claim C1. \<open>search_by_embedding\<close> on an index without vectors returns the empty list
  and raises nothing. Every list it returns has at most \<open>min(k, ntotal)\<close> entries, each the
  article id of a mapped slot with the squared Euclidean distance of that slot's vector
  from the query, in non-decreasing order of distance. It returns (rather than raises)
  whenever the query has the dimension of the index and \<open>k\<close> is positive.
\<close>

theorem search_by_embedding_bounded_sorted:
  "(ntotal (index s) = 0 \<longrightarrow> search_by_embedding s q k = Inr [])
   \<and> (\<forall>res. search_by_embedding s q k = Inr res \<longrightarrow>
          length res \<le> min (nat k) (ntotal (index s))
          \<and> sorted (map snd res)
          \<and> (\<forall>(article_id, dst) \<in> set res. \<exists>slot < ntotal (index s).
                map_of (article_id_map s) slot = Some article_id
                \<and> dst = l2_sqr q (index_xb (index s) ! slot)))
   \<and> (length q = index_d (index s) \<and> 0 < k \<longrightarrow> (\<exists>res. search_by_embedding s q k = Inr res))"
proof (intro conjI allI impI)
  assume "ntotal (index s) = 0"
  then show "search_by_embedding s q k = Inr []" by (simp add: search_by_embedding_def)
next
  fix res assume r: "search_by_embedding s q k = Inr res"
  show "length res \<le> min (nat k) (ntotal (index s))"
  proof (cases "ntotal (index s) = 0")
    case True
    with r show ?thesis by (simp add: search_by_embedding_def)
  next
    case False
    with r obtain hits where
      h: "index_search (index s) q (min k (int (ntotal (index s)))) = Inr hits"
      and res: "res = collect_results (article_id_map s) hits"
      by (auto simp: search_by_embedding_def Let_def split: sum.splits)
    have "length res \<le> length hits" by (simp add: res length_collect_results)
    also have "\<dots> = min (nat (min k (int (ntotal (index s))))) (ntotal (index s))"
      by (rule index_search_hits(1) [OF h])
    also have "\<dots> \<le> min (nat k) (ntotal (index s))" by (auto simp: min_def)
    finally show ?thesis .
  qed
  show "sorted (map snd res)"
  proof (cases "ntotal (index s) = 0")
    case True
    with r show ?thesis by (simp add: search_by_embedding_def)
  next
    case False
    with r obtain hits where
      h: "index_search (index s) q (min k (int (ntotal (index s)))) = Inr hits"
      and res: "res = collect_results (article_id_map s) hits"
      by (auto simp: search_by_embedding_def Let_def split: sum.splits)
    show ?thesis unfolding res
      by (rule sorted_collect_results) (rule index_search_hits(2) [OF h])
  qed
  show "\<forall>(article_id, dst) \<in> set res. \<exists>slot < ntotal (index s).
                map_of (article_id_map s) slot = Some article_id
                \<and> dst = l2_sqr q (index_xb (index s) ! slot)"
  proof (cases "ntotal (index s) = 0")
    case True
    with r show ?thesis by (simp add: search_by_embedding_def)
  next
    case False
    with r obtain hits where
      h: "index_search (index s) q (min k (int (ntotal (index s)))) = Inr hits"
      and res: "res = collect_results (article_id_map s) hits"
      by (auto simp: search_by_embedding_def Let_def split: sum.splits)
    show ?thesis unfolding res collect_results_filter
      using index_search_hits(3) [OF h] by auto
  qed
next
  assume "length q = index_d (index s) \<and> 0 < k"
  then show "\<exists>res. search_by_embedding s q k = Inr res"
    by (auto simp: search_by_embedding_def index_search_def Let_def)
qed

theorem search_by_embedding_witness:
  "search_by_embedding example_service [1, 2] 5 = Inr [(11, 1), (10, 5)]
   \<and> length [(11 :: int, 1 :: real), (10, 5)] \<le> min (nat 5) (ntotal (index example_service))
   \<and> sorted (map snd [(11 :: int, 1 :: real), (10, 5)])
   \<and> search_by_embedding (new_service 2) [1, 2] 5 = Inr []"
proof -
  have e: "search_by_embedding example_service [1, 2] 5 = Inr [(11, 1), (10, 5)]"
    by (simp add: search_by_embedding_def example_service_def ntotal_def index_search_def
        l2_sqr_def)
  have n: "ntotal (index (new_service 2)) = 0"
    by (simp add: new_service_def IndexFlatL2_def ntotal_def)
  from search_by_embedding_bounded_sorted [of example_service "[1, 2]" 5] e
    search_by_embedding_bounded_sorted [of "new_service 2" "[1, 2]" 5] n
  show ?thesis by simp
qed

lemma index_search_distinct_slots:
  assumes "index_search ix q k = Inr hits"
  shows "distinct (map snd hits)"
proof -
  let ?all = "sort_key fst (map (\<lambda>i. (l2_sqr q (index_xb ix ! i), i)) [0..<ntotal ix])"
  from assms have h: "hits = take (nat k) ?all"
    by (simp add: index_search_def split: if_splits)
  have "map snd (map (\<lambda>i. (l2_sqr q (index_xb ix ! i), i)) [0..<ntotal ix]) = [0..<ntotal ix]"
    by (simp add: comp_def map_idI)
  then have "mset (map snd ?all) = mset [0..<ntotal ix]"
    by (metis mset_map mset_sort)
  then have "distinct (map snd ?all)"
    using mset_eq_imp_distinct_iff distinct_upt by blast
  then show ?thesis unfolding h take_map [symmetric] by (rule distinct_take)
qed

lemma mapped_slots_bound:
  assumes "distinct (map snd hits)"
  shows "length (filter (\<lambda>h. map_of m (snd h) \<noteq> None) hits) \<le> length m"
proof -
  let ?f = "filter (\<lambda>h. map_of m (snd h) \<noteq> None) hits"
  have d: "distinct (map snd ?f)" using assms by (rule distinct_map_filter)
  have "set (map snd ?f) \<subseteq> fst ` set m"
    by (auto simp: map_of_eq_None_iff)
  then have "card (set (map snd ?f)) \<le> card (fst ` set m)"
    by (intro card_mono) auto
  also have "\<dots> \<le> length m"
    by (metis card_length length_map set_map)
  finally have "card (set (map snd ?f)) \<le> length m" .
  moreover have "card (set (map snd ?f)) = length ?f"
    using distinct_card [OF d] by simp
  ultimately show ?thesis by simp
qed

text \<open>
  Claim C10, as amended. On a non-empty index, with a query of the dimension of the index
  and a positive \<open>k\<close>, \<open>search_by_embedding\<close> raises nothing and returns exactly those of
  the \<open>min(k, ntotal)\<close> nearest hits whose slot is a key of the mapping. So it returns fewer
  than \<open>min(k, ntotal)\<close> results exactly when one of these hits is unmapped, which is
  certain when \<open>k\<close> is at least \<open>ntotal\<close> and the mapping has fewer entries than the index
  has vectors. The text search runs the same loop on the embedding of its query.
\<close>

theorem search_by_embedding_drops_unmapped:
  assumes "length q = index_d (index s)" and "0 < k" and "0 < ntotal (index s)"
  shows "\<exists>hits. index_search (index s) q (min k (int (ntotal (index s)))) = Inr hits
           \<and> length hits = min (nat k) (ntotal (index s))
           \<and> search_by_embedding s q k
               = Inr (map (\<lambda>h. (the (map_of (article_id_map s) (snd h)), fst h))
                       (filter (\<lambda>h. map_of (article_id_map s) (snd h) \<noteq> None) hits))
           \<and> (\<forall>res. search_by_embedding s q k = Inr res \<longrightarrow>
                 (length res < min (nat k) (ntotal (index s))
                    \<longleftrightarrow> (\<exists>h \<in> set hits. map_of (article_id_map s) (snd h) = None))
                 \<and> (int (ntotal (index s)) \<le> k
                      \<and> length (article_id_map s) < ntotal (index s)
                    \<longrightarrow> length res < min (nat k) (ntotal (index s))))
           \<and> (\<forall>generate_embedding query. generate_embedding query = Inr q \<longrightarrow>
                 search s generate_embedding query k = search_by_embedding s q k)"
proof -
  let ?n = "ntotal (index s)" and ?m = "article_id_map s"
  from assms obtain hits where h: "index_search (index s) q (min k (int ?n)) = Inr hits"
    using index_search_returns [of q "index s" "min k (int ?n)"] by auto
  let ?kept = "filter (\<lambda>h. map_of ?m (snd h) \<noteq> None) hits"
  have len: "length hits = min (nat k) ?n"
    using index_search_hits(1) [OF h] assms(2) by (auto simp: min_def)
  have res: "search_by_embedding s q k = Inr (map (\<lambda>h. (the (map_of ?m (snd h)), fst h)) ?kept)"
    using assms(3) h by (simp add: search_by_embedding_def Let_def collect_results_filter)
  have iff: "length ?kept < length hits \<longleftrightarrow> (\<exists>h \<in> set hits. map_of ?m (snd h) = None)"
  proof
    assume "length ?kept < length hits"
    then have "?kept \<noteq> hits" by auto
    then show "\<exists>h \<in> set hits. map_of ?m (snd h) = None"
      by (auto simp: filter_id_conv)
  next
    assume "\<exists>h \<in> set hits. map_of ?m (snd h) = None"
    then obtain h where "h \<in> set hits" "map_of ?m (snd h) = None" by blast
    then show "length ?kept < length hits"
      by (intro length_filter_less [of h]) auto
  qed
  have few: "length ?kept < length hits"
    if "int ?n \<le> k" "length ?m < ?n"
  proof -
    have "length ?kept \<le> length ?m"
      by (rule mapped_slots_bound) (rule index_search_distinct_slots [OF h])
    also have "\<dots> < length hits" using that len by (auto simp: min_def)
    finally show ?thesis .
  qed
  have same: "search s generate_embedding query k = search_by_embedding s q k"
    if "generate_embedding query = Inr q" for generate_embedding query
    using that by (simp add: search_def search_by_embedding_def)
  show ?thesis
    using h len res iff few same by (intro exI [of _ hits]) (auto simp: len)
qed

text \<open>
  The claim as stated fails for a small \<open>k\<close>: the mapping below has one entry for two
  vectors, and the single nearest hit of the query is the mapped one, so the search
  returns \<open>min(k, ntotal) = 1\<close> result, not fewer.
\<close>

theorem search_by_embedding_full_count_counterexample:
  "length (article_id_map example_partial_service) < ntotal (index example_partial_service)
   \<and> search_by_embedding example_partial_service [0, 0] 1 = Inr [(10, 0)]
   \<and> \<not> length [(10 :: int, 0 :: real)] < min (nat 1) (ntotal (index example_partial_service))"
  by (simp add: search_by_embedding_def example_partial_service_def ntotal_def index_search_def
        l2_sqr_def)

theorem search_by_embedding_drops_unmapped_witness:
  "search_by_embedding example_partial_service [0, 0] 2 = Inr [(10, 0)]
   \<and> length [(10 :: int, 0 :: real)] < min (nat 2) (ntotal (index example_partial_service))"
proof -
  have e: "search_by_embedding example_partial_service [0, 0] 2 = Inr [(10, 0)]"
    by (simp add: search_by_embedding_def example_partial_service_def ntotal_def
        index_search_def l2_sqr_def)
  have a: "length [0, 0 :: real] = index_d (index example_partial_service)"
    and b: "0 < ntotal (index example_partial_service)"
    and c: "int (ntotal (index example_partial_service)) \<le> 2"
    and d: "length (article_id_map example_partial_service)
              < ntotal (index example_partial_service)"
    by (simp_all add: example_partial_service_def ntotal_def)
  have "(0 :: int) < 2" by simp
  from search_by_embedding_drops_unmapped [OF a this b] e c d
  show ?thesis by auto
qed

section \<open>Snapshots: saving and loading\<close>

lemma save_index_writes:
  "save_index s fs p
     = (Inr (), fs(p \<mapsto> IndexData (Some (Serialized (index s))) (Some (article_id_map s))))"
  by (simp add: save_index_def serialize_index_def)

lemma load_index_installs:
  "fs p = Some (IndexData (Some (Serialized ix)) (Some m)) \<Longrightarrow>
     load_index s fs p = (Inr (), s\<lparr>index := ix, article_id_map := m\<rparr>)"
  by (simp add: load_index_def pickle_load_def deserialize_index_def)

text \<open>
  The index is assigned before the mapping is read: a dict without the entry
  \<open>'article_id_map'\<close> raises after the index has been replaced.
\<close>

lemma load_index_partial:
  "fs p = Some (IndexData (Some (Serialized ix)) None) \<Longrightarrow>
     load_index s fs p = (Inl KeyError, s\<lparr>index := ix\<rparr>)"
  by (simp add: load_index_def pickle_load_def deserialize_index_def)

text \<open>
  Claim C6. \<open>save_index\<close> followed by \<open>load_index\<close> of the same path, into the same
  service object or into any other of the same configured dimension (the object a
  restarted process builds), succeeds and gives back the saved state: the same
  \<open>get_index_stats\<close> and, for every probe query and every \<open>k\<close>, the same search answer.
  That the two libraries decode what they encoded is part of the representation of the
  file content.
\<close>

theorem save_load_round_trip:
  assumes "dimension s' = dimension s"
  shows "fst (save_index s fs p) = Inr ()
         \<and> load_index s' (snd (save_index s fs p)) p = (Inr (), s)
         \<and> get_index_stats (snd (load_index s' (snd (save_index s fs p)) p)) = get_index_stats s
         \<and> (\<forall>q k. search_by_embedding (snd (load_index s' (snd (save_index s fs p)) p)) q k
                    = search_by_embedding s q k)"
proof -
  have "s'\<lparr>index := index s, article_id_map := article_id_map s\<rparr> = s"
    using assms by simp
  then have "load_index s' (snd (save_index s fs p)) p = (Inr (), s)"
    by (simp add: save_index_writes load_index_installs)
  then show ?thesis by (simp add: save_index_writes)
qed

text \<open>
  Claim C8, as amended. \<open>load_index\<close> compares no dimension: it installs the index and
  the mapping of every snapshot that decodes, whatever the dimension of that index. It
  raises and leaves the service object untouched when the file is missing, when the
  content does not unpickle, when the \<open>'index'\<close> entry is missing and when the index
  bytes do not deserialize.
\<close>

theorem load_index_outcomes:
  "(fs p = Some (IndexData (Some (Serialized ix)) (Some m)) \<longrightarrow>
      load_index s fs p = (Inr (), s\<lparr>index := ix, article_id_map := m\<rparr>))
   \<and> (fs p = None \<or> fs p = Some Garbage \<or> (\<exists>m. fs p = Some (IndexData None m))
        \<or> (\<exists>m. fs p = Some (IndexData (Some Junk) m)) \<longrightarrow>
      (\<exists>e. load_index s fs p = (Inl e, s)))"
  by (auto simp: load_index_def pickle_load_def deserialize_index_def)

text \<open>
  The claim as stated fails: a service configured for dimension 2 loads the snapshot of
  an index of dimension 3 without an error and holds that index afterwards.
\<close>

theorem load_index_foreign_dimension_counterexample:
  "index_d (index example_wide_service) \<noteq> dimension (new_service 2)
   \<and> load_index (new_service 2) (snd (save_index example_wide_service Map.empty ''faiss.index''))
        ''faiss.index''
      = (Inr (), \<lparr>index = \<lparr>index_d = 3, index_xb = [[1, 2, 3]]\<rparr>,
                  article_id_map = [(0, 5)], dimension = 2\<rparr>)"
  by (simp add: save_index_writes load_index_installs example_wide_service_def new_service_def)

theorem save_load_round_trip_witness:
  "load_index (new_service 2) (snd (save_index example_service Map.empty ''faiss.index''))
     ''faiss.index'' = (Inr (), example_service)
   \<and> total_vectors (get_index_stats (snd (load_index (new_service 2)
        (snd (save_index example_service Map.empty ''faiss.index'')) ''faiss.index''))) = 2"
proof -
  have "dimension (new_service 2) = dimension example_service"
    by (simp add: new_service_def example_service_def)
  from save_load_round_trip [OF this, of Map.empty "''faiss.index''"]
  show ?thesis by (simp add: get_index_stats_def example_service_def ntotal_def)
qed

theorem load_index_outcomes_witness:
  "load_index (new_service 2) [''faiss.index'' \<mapsto> IndexData (Some (Serialized (index example_wide_service))) (Some [(0, 5)])] ''faiss.index''
     = (Inr (), (new_service 2)\<lparr>index := index example_wide_service, article_id_map := [(0, 5)]\<rparr>)
   \<and> (\<exists>e. load_index example_service [''faiss.index'' \<mapsto> Garbage] ''faiss.index'' = (Inl e, example_service))
   \<and> (\<exists>e. load_index example_service Map.empty ''faiss.index'' = (Inl e, example_service))"
  using load_index_outcomes [of "[''faiss.index'' \<mapsto> IndexData (Some (Serialized (index example_wide_service))) (Some [(0, 5)])]"
      "''faiss.index''" "index example_wide_service" "[(0, 5)]" "new_service 2"]
    load_index_outcomes [of "[''faiss.index'' \<mapsto> Garbage]" "''faiss.index''" _ _ example_service]
    load_index_outcomes [of Map.empty "''faiss.index''" _ _ example_service]
  by simp

text \<open>
  Claim C7 as stated fails in the state that such a load leaves. The configured
  dimension is still 2 and the index has dimension 3: the insertion of a vector of
  length 3 is accepted and raises the vector count from 1 to 2.
\<close>

theorem add_embeddings_after_load_counterexample:
  "load_index (new_service 2) (snd (save_index example_wide_service Map.empty ''faiss.index''))
       ''faiss.index'' = (Inr (), example_loaded_service)
   \<and> dimension example_loaded_service = 2
   \<and> length [1, 2, 3 :: real] \<noteq> dimension example_loaded_service
   \<and> add_embeddings example_loaded_service [[1, 2, 3]] [7]
       = (Inr (), \<lparr>index = \<lparr>index_d = 3, index_xb = [[1, 2, 3], [1, 2, 3]]\<rparr>,
                   article_id_map = [(0, 5), (1, 7)], dimension = 2\<rparr>)
   \<and> total_vectors (get_index_stats example_loaded_service) = 1
   \<and> total_vectors
         (get_index_stats (snd (add_embeddings example_loaded_service [[1, 2, 3]] [7]))) = 2"
proof -
  have l: "load_index (new_service 2)
             (snd (save_index example_wide_service Map.empty ''faiss.index'')) ''faiss.index''
           = (Inr (), example_loaded_service)"
    by (simp add: save_index_writes load_index_installs example_wide_service_def
        example_loaded_service_def new_service_def)
  have a: "add_embeddings example_loaded_service [[1, 2, 3]] [7]
       = (Inr (), \<lparr>index = \<lparr>index_d = 3, index_xb = [[1, 2, 3], [1, 2, 3]]\<rparr>,
                   article_id_map = [(0, 5), (1, 7)], dimension = 2\<rparr>)"
    by (simp add: add_embeddings_def index_add_def example_loaded_service_def ntotal_def
        Let_def)
  have d: "dimension example_loaded_service = 2"
    and n: "total_vectors (get_index_stats example_loaded_service) = 1"
    by (simp_all add: example_loaded_service_def get_index_stats_def ntotal_def)
  have m: "total_vectors
         (get_index_stats (snd (add_embeddings example_loaded_service [[1, 2, 3]] [7]))) = 2"
    by (simp add: a get_index_stats_def ntotal_def)
  have g: "length [1, 2, 3 :: real] \<noteq> dimension example_loaded_service"
    by (simp add: d)
  from l d g a n m show ?thesis by (intro conjI)
qed

section \<open>Rebuilding\<close>

lemma update_fresh: "k \<notin> fst ` set m \<Longrightarrow> AList.update k v m = m @ [(k, v)]"
  by (induction m) auto

lemma map_ids_fresh:
  "\<forall>k \<in> fst ` set m. k < start \<Longrightarrow>
     map_ids m start ids = m @ zip [start..<start + length ids] ids"
proof (induction ids arbitrary: m start)
  case Nil
  then show ?case by simp
next
  case (Cons a ids)
  have fresh: "start \<notin> fst ` set m" using Cons.prems by auto
  have "\<forall>k \<in> fst ` set (m @ [(start, a)]). k < Suc start"
    using Cons.prems by auto
  from Cons.IH [OF this]
  have "map_ids (m @ [(start, a)]) (Suc start) ids
          = (m @ [(start, a)]) @ zip [Suc start..<Suc start + length ids] ids" .
  moreover have "[start..<start + length (a # ids)] = start # [Suc start..<Suc start + length ids]"
    by (simp del: upt_Suc add: upt_conv_Cons)
  ultimately show ?case by (simp del: upt_Suc add: update_fresh [OF fresh])
qed

lemma map_ids_empty: "map_ids [] 0 ids = zip [0..<length ids] ids"
  using map_ids_fresh [of "[]" 0 ids] by simp

lemma decode_rows_pairs:
  "decode_rows rows = (map snd (decoded_pairs rows), map fst (decoded_pairs rows))"
  by (induction rows rule: decode_rows.induct)
    (auto simp: decoded_pairs_def split: row_blob.splits)

lemma reset_is_new:
  "(initialize_index s)\<lparr>article_id_map := []\<rparr> = new_service (dimension s)"
  by (cases s) (simp add: initialize_index_def new_service_def)

lemma rebuild_state_independent:
  "dimension s' = dimension s \<Longrightarrow>
     rebuild_from_embeddings s' rows = rebuild_from_embeddings s rows"
  unfolding rebuild_from_embeddings_def reset_is_new by simp

lemma rebuild_keeps_dimension:
  "dimension (snd (rebuild_from_embeddings s rows)) = dimension s"
  by (auto simp: rebuild_from_embeddings_def reset_is_new new_service_def Let_def
      split: prod.splits sum.splits)

lemma rebuild_index_dimension:
  "index_d (index (snd (rebuild_from_embeddings s rows))) = dimension s"
  by (auto simp: rebuild_from_embeddings_def reset_is_new new_service_def IndexFlatL2_def
      index_add_def Let_def split: prod.splits sum.splits if_splits)

lemma np_vstack_uniform:
  "vs \<noteq> [] \<Longrightarrow> \<forall>v \<in> set vs. length v = n \<Longrightarrow> np_vstack vs = Inr vs"
  by (cases vs) (auto simp: np_vstack_def list_all_iff)

lemma rebuild_uniform:
  assumes "\<forall>(a, v) \<in> set (decoded_pairs rows). length v = dimension s"
  shows "rebuild_from_embeddings s rows =
     (Inr (), \<lparr>index = \<lparr>index_d = dimension s, index_xb = map snd (decoded_pairs rows)\<rparr>,
               article_id_map = zip [0..<length (decoded_pairs rows)] (map fst (decoded_pairs rows)),
               dimension = dimension s\<rparr>)"
proof (cases "decoded_pairs rows = []")
  case True
  then show ?thesis
    by (simp add: rebuild_from_embeddings_def reset_is_new new_service_def IndexFlatL2_def
        decode_rows_pairs Let_def)
next
  case False
  then have ne: "rows \<noteq> []" by (auto simp: decoded_pairs_def)
  let ?vs = "map snd (decoded_pairs rows)"
  have u: "\<forall>v \<in> set ?vs. length v = dimension s" using assms by auto
  have v: "np_vstack ?vs = Inr ?vs" using False u by (intro np_vstack_uniform) auto
  have a: "index_add (IndexFlatL2 (dimension s)) ?vs
             = Inr \<lparr>index_d = dimension s, index_xb = ?vs\<rparr>"
    using u by (simp add: index_add_def IndexFlatL2_def list_all_iff)
  show ?thesis
    using False ne v a
    by (simp add: rebuild_from_embeddings_def reset_is_new new_service_def decode_rows_pairs
        map_ids_empty Let_def)
qed

lemma rebuild_mismatch:
  assumes "\<exists>(a, v) \<in> set (decoded_pairs rows). length v \<noteq> dimension s"
  shows "\<exists>e. rebuild_from_embeddings s rows = (Inl e, new_service (dimension s))"
proof -
  let ?vs = "map snd (decoded_pairs rows)"
  from assms have ne: "decoded_pairs rows \<noteq> []" by auto
  then have r: "rows \<noteq> []" by (auto simp: decoded_pairs_def)
  from assms obtain a v where "(a, v) \<in> set (decoded_pairs rows)" "length v \<noteq> dimension s"
    by auto
  then have "v \<in> set ?vs" "length v \<noteq> dimension s" by force+
  then have bad: "\<not> list_all (\<lambda>v. length v = dimension s) ?vs"
    unfolding list_all_iff by blast
  have "index_add (IndexFlatL2 (dimension s)) m = Inl AssertionError"
    if "np_vstack ?vs = Inr m" for m
  proof -
    from that have "m = ?vs" by (auto simp: np_vstack_def split: list.splits if_splits)
    with bad show ?thesis by (simp add: index_add_def IndexFlatL2_def)
  qed
  then show ?thesis
    using ne r
    by (auto simp: rebuild_from_embeddings_def reset_is_new decode_rows_pairs
        new_service_def Let_def split: sum.splits)
qed

lemma stored_pairs_zip:
  "length ids = length vs \<Longrightarrow>
   stored_pairs \<lparr>index = \<lparr>index_d = n, index_xb = vs\<rparr>,
                 article_id_map = zip [0..<length ids] ids, dimension = n\<rparr>
     = mset (zip ids vs)"
proof -
  assume l: "length ids = length vs"
  have "map (\<lambda>(slot, article_id). (article_id, vs ! slot)) (zip [0..<length ids] ids) = zip ids vs"
    using l by (intro nth_equalityI) auto
  then show ?thesis by (simp add: stored_pairs_def)
qed

text \<open>
  Claim C5, as amended. \<open>rebuild_from_embeddings\<close> drops the index and the mapping it
  finds: its outcome depends on the configured dimension and on the rows alone. Rows
  without bytes and rows that do not decode are skipped. When every decoded vector has
  the configured length \<open>D\<close>, the decoded vectors are stored in row order in the slots
  \<open>0, 1, ...\<close> with their article ids, so the stored (article id, vector) pairs are
  those of the decodable rows. When some decoded vector has another length the call
  raises and leaves the index empty. Rebuilding again from the same rows changes
  nothing.
\<close>

theorem rebuild_from_embeddings_amended:
  "(dimension s' = dimension s \<longrightarrow>
      rebuild_from_embeddings s' rows = rebuild_from_embeddings s rows)
   \<and> ((\<forall>(a, v) \<in> set (decoded_pairs rows). length v = dimension s) \<longrightarrow>
        rebuild_from_embeddings s rows =
          (Inr (), \<lparr>index = \<lparr>index_d = dimension s, index_xb = map snd (decoded_pairs rows)\<rparr>,
                    article_id_map =
                      zip [0..<length (decoded_pairs rows)] (map fst (decoded_pairs rows)),
                    dimension = dimension s\<rparr>)
        \<and> stored_pairs (snd (rebuild_from_embeddings s rows)) = mset (decoded_pairs rows))
   \<and> ((\<exists>(a, v) \<in> set (decoded_pairs rows). length v \<noteq> dimension s) \<longrightarrow>
        (\<exists>e. rebuild_from_embeddings s rows = (Inl e, new_service (dimension s))))
   \<and> rebuild_from_embeddings (snd (rebuild_from_embeddings s rows)) rows
        = rebuild_from_embeddings s rows"
proof (intro conjI impI)
  assume "dimension s' = dimension s"
  then show "rebuild_from_embeddings s' rows = rebuild_from_embeddings s rows"
    by (rule rebuild_state_independent)
next
  assume u: "\<forall>(a, v) \<in> set (decoded_pairs rows). length v = dimension s"
  show "rebuild_from_embeddings s rows =
          (Inr (), \<lparr>index = \<lparr>index_d = dimension s, index_xb = map snd (decoded_pairs rows)\<rparr>,
                    article_id_map =
                      zip [0..<length (decoded_pairs rows)] (map fst (decoded_pairs rows)),
                    dimension = dimension s\<rparr>)"
    by (rule rebuild_uniform [OF u])
  have "stored_pairs \<lparr>index = \<lparr>index_d = dimension s, index_xb = map snd (decoded_pairs rows)\<rparr>,
                    article_id_map =
                      zip [0..<length (map fst (decoded_pairs rows))] (map fst (decoded_pairs rows)),
                    dimension = dimension s\<rparr>
        = mset (zip (map fst (decoded_pairs rows)) (map snd (decoded_pairs rows)))"
    by (rule stored_pairs_zip) simp
  then show "stored_pairs (snd (rebuild_from_embeddings s rows)) = mset (decoded_pairs rows)"
    by (simp add: rebuild_uniform [OF u] zip_map_fst_snd)
next
  assume "\<exists>(a, v) \<in> set (decoded_pairs rows). length v \<noteq> dimension s"
  then show "\<exists>e. rebuild_from_embeddings s rows = (Inl e, new_service (dimension s))"
    by (rule rebuild_mismatch)
next
  show "rebuild_from_embeddings (snd (rebuild_from_embeddings s rows)) rows
        = rebuild_from_embeddings s rows"
    by (rule rebuild_state_independent) (rule rebuild_keeps_dimension)
qed

text \<open>
  The claim as stated fails: both rows below decode, the second to a vector of length 2
  where the index has dimension 3. Nothing is re-inserted, the first row included: the
  call raises and the index is left empty.
\<close>

theorem rebuild_mixed_lengths_counterexample:
  "decoded_pairs [(1, VecBytes [1, 2, 3]), (2, VecBytes [1, 2])] = [(1, [1, 2, 3]), (2, [1, 2])]
   \<and> rebuild_from_embeddings example_wide_service [(1, VecBytes [1, 2, 3]), (2, VecBytes [1, 2])]
       = (Inl ValueError, new_service 3)
   \<and> total_vectors (get_index_stats (new_service 3)) = 0"
  by (simp add: decoded_pairs_def rebuild_from_embeddings_def example_wide_service_def
      initialize_index_def new_service_def np_vstack_def get_index_stats_def ntotal_def
      IndexFlatL2_def)

theorem rebuild_from_embeddings_witness:
  "rebuild_from_embeddings example_service example_rows
     = (Inr (), \<lparr>index = \<lparr>index_d = 2, index_xb = [[1, 2], [3, 4]]\<rparr>,
                 article_id_map = [(0, 4), (1, 9)], dimension = 2\<rparr>)
   \<and> stored_pairs (snd (rebuild_from_embeddings example_service example_rows))
       = {#(4, [1, 2]), (9, [3, 4])#}
   \<and> rebuild_from_embeddings (snd (rebuild_from_embeddings example_service example_rows))
         example_rows
       = rebuild_from_embeddings example_service example_rows
   \<and> (\<exists>e. rebuild_from_embeddings example_wide_service example_rows = (Inl e, new_service 3))"
proof -
  have p: "decoded_pairs example_rows = [(4, [1, 2]), (9, [3, 4])]"
    by (simp add: decoded_pairs_def example_rows_def)
  have d2: "dimension example_service = 2" by (simp add: example_service_def)
  have d3: "dimension example_wide_service = 3" by (simp add: example_wide_service_def)
  have u: "\<forall>(a, v) \<in> set (decoded_pairs example_rows). length v = dimension example_service"
    by (simp add: p d2)
  have m: "\<exists>(a, v) \<in> set (decoded_pairs example_rows). length v \<noteq> dimension example_wide_service"
    by (simp add: p d3)
  have z: "[0..<2] = [0, Suc 0]" by (simp add: upt_rec)
  note good = rebuild_from_embeddings_amended [of example_service example_service example_rows]
  note bad = rebuild_from_embeddings_amended
    [of example_wide_service example_wide_service example_rows]
  from good u have
    "rebuild_from_embeddings example_service example_rows =
       (Inr (), \<lparr>index = \<lparr>index_d = dimension example_service,
                          index_xb = map snd (decoded_pairs example_rows)\<rparr>,
                 article_id_map = zip [0..<length (decoded_pairs example_rows)]
                                    (map fst (decoded_pairs example_rows)),
                 dimension = dimension example_service\<rparr>)"
    by blast
  then have c1: "rebuild_from_embeddings example_service example_rows
     = (Inr (), \<lparr>index = \<lparr>index_d = 2, index_xb = [[1, 2], [3, 4]]\<rparr>,
                 article_id_map = [(0, 4), (1, 9)], dimension = 2\<rparr>)"
    by (simp add: p d2 z)
  from good u have
    "stored_pairs (snd (rebuild_from_embeddings example_service example_rows))
       = mset (decoded_pairs example_rows)"
    by blast
  then have c2: "stored_pairs (snd (rebuild_from_embeddings example_service example_rows))
       = {#(4, [1, 2]), (9, [3, 4])#}"
    by (simp add: p)
  from good have c3:
    "rebuild_from_embeddings (snd (rebuild_from_embeddings example_service example_rows))
         example_rows
       = rebuild_from_embeddings example_service example_rows"
    by blast
  from bad m have
    "\<exists>e. rebuild_from_embeddings example_wide_service example_rows
           = (Inl e, new_service (dimension example_wide_service))"
    by blast
  then have c4:
    "\<exists>e. rebuild_from_embeddings example_wide_service example_rows = (Inl e, new_service 3)"
    by (simp add: d3)
  from c1 c2 c3 c4 show ?thesis by blast
qed

section \<open>Content based recommendations\<close>

lemma liked_embeddings_resolved:
  "liked_embeddings table liked
     = List.map_filter (\<lambda>fb. stored_vector table (fb_article_id fb)) liked"
  by (induction liked)
    (auto simp: List.map_filter_simps stored_vector_def split: option.splits row_blob.splits)

lemma np_mean_uniform:
  "vs \<noteq> [] \<Longrightarrow> \<forall>v \<in> set vs. length v = n \<Longrightarrow> np_mean_axis0 vs = elementwise_mean n vs"
  by (cases vs) (auto simp: np_mean_axis0_def elementwise_mean_def)

lemma np_vstack_ragged:
  assumes "v \<in> set vs" "w \<in> set vs" "length v \<noteq> length w"
  shows "np_vstack vs = Inl ValueError"
proof (cases vs)
  case Nil
  with assms show ?thesis by simp
next
  case (Cons x rest)
  have "\<not> list_all (\<lambda>y. length y = length x) rest"
  proof
    assume "list_all (\<lambda>y. length y = length x) rest"
    then have "\<forall>y \<in> set vs. length y = length x" by (simp add: Cons list_all_iff)
    with assms show False by auto
  qed
  then show ?thesis by (simp add: np_vstack_def Cons)
qed

text \<open>
  Claim C9. \<open>_content_based_recs\<close> returns the empty list, and raises nothing, for a user
  without a feedback row of rating at least 4 and for a user none of whose liked
  articles has a stored vector. Otherwise it passes over the liked articles without a
  vector and returns what \<open>search_by_embedding\<close> gives for the element-wise mean of the
  resolved vectors and \<open>top_k\<close>. (The mean exists when the resolved vectors have one
  length; when they do not, \<open>np.vstack\<close> raises.)
\<close>

theorem content_based_recs_centroid:
  "(liked_rows feedback u = [] \<longrightarrow> content_based_recs s feedback table u k = Inr [])
   \<and> ((\<forall>fb \<in> set (liked_rows feedback u). stored_vector table (fb_article_id fb) = None) \<longrightarrow>
        content_based_recs s feedback table u k = Inr [])
   \<and> (resolved_vectors feedback table u \<noteq> []
        \<and> (\<forall>v \<in> set (resolved_vectors feedback table u). length v = n) \<longrightarrow>
        content_based_recs s feedback table u k
          = search_by_embedding s (elementwise_mean n (resolved_vectors feedback table u)) k)
   \<and> ((\<exists>v \<in> set (resolved_vectors feedback table u).
         \<exists>w \<in> set (resolved_vectors feedback table u). length v \<noteq> length w) \<longrightarrow>
        content_based_recs s feedback table u k = Inl ValueError)"
proof (intro conjI impI)
  assume "liked_rows feedback u = []"
  then show "content_based_recs s feedback table u k = Inr []"
    by (simp add: content_based_recs_def liked_rows_def)
next
  assume "\<forall>fb \<in> set (liked_rows feedback u). stored_vector table (fb_article_id fb) = None"
  then have "resolved_vectors feedback table u = []"
    by (auto simp: resolved_vectors_def List.map_filter_def filter_empty_conv)
  then show "content_based_recs s feedback table u k = Inr []"
    by (simp add: content_based_recs_def liked_embeddings_resolved resolved_vectors_def
        liked_rows_def Let_def)
next
  let ?vs = "resolved_vectors feedback table u"
  assume a: "?vs \<noteq> [] \<and> (\<forall>v \<in> set ?vs. length v = n)"
  then have l: "liked_rows feedback u \<noteq> []"
    by (auto simp: resolved_vectors_def List.map_filter_simps)
  have v: "np_vstack ?vs = Inr ?vs" using a by (intro np_vstack_uniform) auto
  have m: "np_mean_axis0 ?vs = elementwise_mean n ?vs" using a by (intro np_mean_uniform) auto
  show "content_based_recs s feedback table u k = search_by_embedding s (elementwise_mean n ?vs) k"
    using a l v m
    by (simp add: content_based_recs_def liked_embeddings_resolved Let_def
        resolved_vectors_def [symmetric] liked_rows_def [symmetric])
next
  let ?vs = "resolved_vectors feedback table u"
  assume "\<exists>v \<in> set ?vs. \<exists>w \<in> set ?vs. length v \<noteq> length w"
  then obtain v w where vw: "v \<in> set ?vs" "w \<in> set ?vs" "length v \<noteq> length w" by blast
  then have ne: "?vs \<noteq> []" by auto
  then have l: "liked_rows feedback u \<noteq> []"
    by (auto simp: resolved_vectors_def List.map_filter_simps)
  have "np_vstack ?vs = Inl ValueError" using vw by (rule np_vstack_ragged)
  then show "content_based_recs s feedback table u k = Inl ValueError"
    using ne l
    by (simp add: content_based_recs_def liked_embeddings_resolved Let_def
        resolved_vectors_def [symmetric] liked_rows_def [symmetric])
qed

theorem content_based_recs_witness:
  "content_based_recs example_service example_feedback example_table 1 1 = Inr [(11, 1 / 4)]
   \<and> content_based_recs example_service example_feedback example_table 2 1 = Inr []
   \<and> content_based_recs example_service example_feedback example_table 3 1 = Inr []"
proof -
  have l1: "resolved_vectors example_feedback example_table 1 = [[0, 0], [2, 3]]"
    by (simp add: resolved_vectors_def liked_rows_def example_feedback_def example_table_def
        List.map_filter_simps stored_vector_def)
  have l2: "liked_rows example_feedback 2 = []"
    by (simp add: liked_rows_def example_feedback_def)
  have l3: "\<forall>fb \<in> set (liked_rows example_feedback 3).
              stored_vector example_table (fb_article_id fb) = None"
    by (simp add: liked_rows_def example_feedback_def example_table_def stored_vector_def)
  have m: "elementwise_mean 2 [[0, 0], [2, 3]] = [1, 3 / 2]"
    by (simp add: elementwise_mean_def upt_rec)
  have q: "search_by_embedding example_service [1, 3 / 2] 1 = Inr [(11, 1 / 4)]"
    by (simp add: search_by_embedding_def example_service_def ntotal_def index_search_def
        l2_sqr_def power2_eq_square)
  from content_based_recs_centroid [of example_feedback 1 example_service example_table 1 2] l1
  have "content_based_recs example_service example_feedback example_table 1 1
          = search_by_embedding example_service (elementwise_mean 2 [[0, 0], [2, 3]]) 1"
    by simp
  then have c1: "content_based_recs example_service example_feedback example_table 1 1
                   = Inr [(11, 1 / 4)]"
    by (simp add: m q)
  from content_based_recs_centroid [of example_feedback 2 example_service example_table 1 0] l2
  have c2: "content_based_recs example_service example_feedback example_table 2 1 = Inr []"
    by blast
  from content_based_recs_centroid [of example_feedback 3 example_service example_table 1 0] l3
  have c3: "content_based_recs example_service example_feedback example_table 3 1 = Inr []"
    by blast
  from c1 c2 c3 show ?thesis by blast
qed

section \<open>Hybrid ranking\<close>

lemma fused_score_membership:
  "fused_score content_ids collab_recs aid
     = (if aid \<in> set content_ids then 7 / 10 else 0) + (if aid \<in> set collab_recs then 3 / 10 else 0)"
  by (simp add: fused_score_def)

lemma sorted_take_drop:
  assumes "sorted (map f xs)" "a \<in> set (take n xs)" "b \<in> set (drop n xs)"
  shows "f a \<le> f b"
proof -
  have "sorted (map f (take n xs) @ map f (drop n xs))"
    using assms(1) by (simp flip: map_append)
  then show ?thesis using assms(2,3) by (auto simp: sorted_append)
qed

lemma sort_key_order_free:
  assumes "inj_on f (set xs)" "distinct xs" "distinct ys" "set xs = set ys"
  shows "sort_key f xs = sort_key f ys"
proof -
  let ?a = "sort_key f xs" and ?b = "sort_key f ys"
  have "sorted (map f ?a)" by simp
  moreover have "distinct (map f ?a)" using assms by (simp add: distinct_map)
  moreover have "sorted (map f ?b)" by simp
  moreover have "distinct (map f ?b)" using assms by (simp add: distinct_map)
  moreover have "set (map f ?a) = set (map f ?b)" using assms(4) by simp
  ultimately have "map f ?a = map f ?b" by (rule sorted_distinct_set_unique)
  moreover have "inj_on f (set ?a \<union> set ?b)" using assms by simp
  ultimately show ?thesis by (simp add: inj_on_map_eq_map)
qed

lemma example_ranking:
  assumes "set_iteration (map fst [(5 :: int, 1 / 10 :: real), (7, 4 / 10)] @ [7, 9]) c"
  shows "hybrid_ranked_ids c [(5, 1 / 10), (7, 4 / 10)] [7, 9] 3 = Some [7, 5, 9]"
proof -
  let ?f = "\<lambda>x. - fused_score (map fst [(5 :: int, 1 / 10 :: real), (7, 4 / 10)]) [7, 9] x"
  from assms have d: "distinct c" and s: "set c = set [5, 7, 9]"
    by (auto simp: set_iteration_def)
  then have ne: "c \<noteq> []" by auto
  have "inj_on ?f (set c)"
    unfolding s by (simp add: fused_score_def)
  then have "sort_key ?f c = sort_key ?f [5, 7, 9]"
    using d s by (intro sort_key_order_free) auto
  also have "\<dots> = [7, 5, 9]" by (simp add: fused_score_def)
  finally show ?thesis using ne by (simp add: hybrid_ranked_ids_def py_take_def)
qed

text \<open>
  Claim C2. The fused score of an article id is 0.7 if it occurs among the content
  results plus 0.3 if it occurs among the collaborative results. For every order in
  which the union is iterated, the ranked list holds \<open>min(k, size of the union)\<close> distinct
  ids of the union by descending score, and no id left out scores more than one that is
  in. Content results with the same ids and other distances give the same list. For the
  content results \<open>[(5, 0.1), (7, 0.4)]\<close>, the collaborative results \<open>[7, 9]\<close> and
  \<open>k = 3\<close> the list is \<open>[7, 5, 9]\<close>, whatever the iteration order.
\<close>

theorem hybrid_ranking:
  "(\<forall>aid. fused_score (map fst content_recs) collab_recs aid
        = (if aid \<in> fst ` set content_recs then 7 / 10 else 0)
          + (if aid \<in> set collab_recs then 3 / 10 else 0))
   \<and> (set_iteration (map fst content_recs @ collab_recs) combined \<and> combined \<noteq> [] \<and> 0 \<le> k \<longrightarrow>
        (\<exists>ranked. hybrid_ranked_ids combined content_recs collab_recs k = Some ranked
           \<and> distinct ranked
           \<and> set ranked \<subseteq> fst ` set content_recs \<union> set collab_recs
           \<and> length ranked = min (nat k) (card (fst ` set content_recs \<union> set collab_recs))
           \<and> sorted (rev (map (fused_score (map fst content_recs) collab_recs) ranked))
           \<and> (\<forall>a \<in> set ranked. \<forall>b \<in> (fst ` set content_recs \<union> set collab_recs) - set ranked.
                 fused_score (map fst content_recs) collab_recs b
                   \<le> fused_score (map fst content_recs) collab_recs a)))
   \<and> (fst ` set content_recs = fst ` set other_recs \<longrightarrow>
        hybrid_ranked_ids combined content_recs collab_recs k
          = hybrid_ranked_ids combined other_recs collab_recs k)
   \<and> (\<forall>c. set_iteration (map fst [(5 :: int, 1 / 10 :: real), (7, 4 / 10)] @ [7, 9]) c \<longrightarrow>
        hybrid_ranked_ids c [(5, 1 / 10), (7, 4 / 10)] [7, 9] 3 = Some [7, 5, 9])"
proof (intro conjI impI allI)
  fix aid
  show "fused_score (map fst content_recs) collab_recs aid
        = (if aid \<in> fst ` set content_recs then 7 / 10 else 0)
          + (if aid \<in> set collab_recs then 3 / 10 else 0)"
    by (simp add: fused_score_membership)
next
  let ?sc = "fused_score (map fst content_recs) collab_recs"
  let ?ids = "fst ` set content_recs \<union> set collab_recs"
  let ?L = "sort_key (\<lambda>x. - ?sc x) combined"
  assume a: "set_iteration (map fst content_recs @ collab_recs) combined \<and> combined \<noteq> [] \<and> 0 \<le> k"
  then have d: "distinct combined" and s: "set combined = ?ids"
    by (auto simp: set_iteration_def)
  have r: "hybrid_ranked_ids combined content_recs collab_recs k = Some (take (nat k) ?L)"
    using a by (simp add: hybrid_ranked_ids_def py_take_def)
  have dL: "distinct ?L" and sL: "set ?L = ?ids" using d s by simp_all
  have lenL: "length combined = card ?ids" using d s by (metis distinct_card)
  have srt: "sorted (map (\<lambda>x. - ?sc x) ?L)" by simp
  have "sorted (map (\<lambda>x. - ?sc x) (take (nat k) ?L))"
    using srt unfolding take_map [symmetric] by (rule sorted_wrt_take)
  then have desc: "sorted (rev (map ?sc (take (nat k) ?L)))"
    by (simp add: sorted_wrt_rev sorted_map sorted_wrt_map)
  have top: "?sc b \<le> ?sc a0"
    if "a0 \<in> set (take (nat k) ?L)" "b \<in> ?ids - set (take (nat k) ?L)" for a0 b
  proof -
    have "set ?L = set (take (nat k) ?L) \<union> set (drop (nat k) ?L)"
      by (metis append_take_drop_id set_append)
    with that(2) sL have "b \<in> set (drop (nat k) ?L)" by blast
    from sorted_take_drop [OF srt that(1) this] show ?thesis by simp
  qed
  show "\<exists>ranked. hybrid_ranked_ids combined content_recs collab_recs k = Some ranked
           \<and> distinct ranked
           \<and> set ranked \<subseteq> ?ids
           \<and> length ranked = min (nat k) (card ?ids)
           \<and> sorted (rev (map ?sc ranked))
           \<and> (\<forall>a \<in> set ranked. \<forall>b \<in> ?ids - set ranked. ?sc b \<le> ?sc a)"
  proof (intro exI [of _ "take (nat k) ?L"] conjI ballI)
    show "hybrid_ranked_ids combined content_recs collab_recs k = Some (take (nat k) ?L)"
      by (rule r)
    show "distinct (take (nat k) ?L)" using dL by (rule distinct_take)
    show "set (take (nat k) ?L) \<subseteq> ?ids" using set_take_subset [of "nat k" ?L] sL by simp
    show "length (take (nat k) ?L) = min (nat k) (card ?ids)" by (simp add: lenL min.commute)
    show "sorted (rev (map ?sc (take (nat k) ?L)))" by (rule desc)
  next
    fix a0 b assume "a0 \<in> set (take (nat k) ?L)" "b \<in> ?ids - set (take (nat k) ?L)"
    then show "?sc b \<le> ?sc a0" by (rule top)
  qed
next
  assume "fst ` set content_recs = fst ` set other_recs"
  then have "fused_score (map fst content_recs) collab_recs
               = fused_score (map fst other_recs) collab_recs"
    by (auto simp: fused_score_def fun_eq_iff)
  then show "hybrid_ranked_ids combined content_recs collab_recs k
          = hybrid_ranked_ids combined other_recs collab_recs k"
    by (simp add: hybrid_ranked_ids_def)
next
  fix c assume "set_iteration (map fst [(5 :: int, 1 / 10 :: real), (7, 4 / 10)] @ [7, 9]) c"
  then show "hybrid_ranked_ids c [(5, 1 / 10), (7, 4 / 10)] [7, 9] 3 = Some [7, 5, 9]"
    by (rule example_ranking)
qed

theorem hybrid_ranking_witness:
  "hybrid_ranked_ids [9, 5, 7] [(5, 1 / 10), (7, 4 / 10)] [7, 9] 3 = Some [7, 5, 9]
   \<and> fused_score (map fst [(5 :: int, 1 / 10 :: real), (7, 4 / 10)]) [7, 9] 7 = 7 / 10 + 3 / 10
   \<and> fused_score (map fst [(5 :: int, 1 / 10 :: real), (7, 4 / 10)]) [7, 9] 9 = 0 + 3 / 10"
proof -
  have i: "set_iteration (map fst [(5 :: int, 1 / 10 :: real), (7, 4 / 10)] @ [7, 9]) [9, 5, 7]"
    by (auto simp: set_iteration_def)
  note h = hybrid_ranking [of "[(5, 1 / 10), (7, 4 / 10)]" "[7, 9]" "[9, 5, 7]" 3
      "[(5, 1 / 10), (7, 4 / 10)]"]
  from h i have c1:
    "hybrid_ranked_ids [9, 5, 7] [(5, 1 / 10), (7, 4 / 10)] [7, 9] 3 = Some [7, 5, 9]"
    by blast
  from h have s: "\<forall>aid. fused_score (map fst [(5 :: int, 1 / 10 :: real), (7, 4 / 10)]) [7, 9] aid
        = (if aid \<in> fst ` set [(5 :: int, 1 / 10 :: real), (7, 4 / 10)] then 7 / 10 else 0)
          + (if aid \<in> set [7, 9] then 3 / 10 else 0)"
    by blast
  have c2: "fused_score (map fst [(5 :: int, 1 / 10 :: real), (7, 4 / 10)]) [7, 9] 7 = 7 / 10 + 3 / 10"
    using s [rule_format, of 7] by simp
  have c3: "fused_score (map fst [(5 :: int, 1 / 10 :: real), (7, 4 / 10)]) [7, 9] 9 = 0 + 3 / 10"
    using s [rule_format, of 9] by simp
  from c1 c2 c3 show ?thesis by blast
qed

section \<open>Collaborative recommendations\<close>

lemma sqrt25: "sqrt 25 = 5" by (rule real_sqrt_unique) simp_all
lemma sqrt9: "sqrt 9 = 3" by (rule real_sqrt_unique) simp_all

lemma example_rating_matrix: "rating_matrix example_ratings = Inr [[3, 4], [3, 0]]"
  by (simp add: rating_matrix_def example_ratings_def collab_users_def collab_articles_def
      enumerate_index_def Let_def upt_conv_Cons)

lemma example_similarities: "similarities [[3, 4], [3, 0]] [3, 4] = [25 / (5 * (5 + 1 / 10 ^ 6) + 1 / 10 ^ 6), 9 / (3 * (5 + 1 / 10 ^ 6) + 1 / 10 ^ 6)]"
  by (simp add: similarities_def np_norm_def dot_def sqrt25 sqrt9)

lemma similarities_nth:
  assumes "i < length matrix"
  shows "similarities matrix target ! i
           = dot (matrix ! i) target
               / (np_norm (matrix ! i) * (np_norm target + 1 / 10 ^ 6) + 1 / 10 ^ 6)"
  using assms by (simp add: similarities_def)

lemma np_norm_nonneg: "0 \<le> np_norm v"
  unfolding np_norm_def by (intro real_sqrt_ge_zero sum_list_nonneg) auto

lemma denominator_positive: "0 < np_norm u * (np_norm target + 1 / 10 ^ 6) + 1 / 10 ^ 6"
proof -
  have "0 \<le> np_norm u * (np_norm target + 1 / 10 ^ 6)"
    using np_norm_nonneg [of u] np_norm_nonneg [of target] by (intro mult_nonneg_nonneg) auto
  then show ?thesis by simp
qed

text \<open>
  Claim C3, as amended. The similarity of the row \<open>u\<close> of every user with the row of the
  target user is \<open>(u \<cdot> target) / (\<parallel>u\<parallel> (\<parallel>target\<parallel> + 1e-6) + 1e-6)\<close>. The divisor is
  positive, so no row, not even one of zeros, divides by zero. These are the similarities
  the scores of the recommender are computed from.
\<close>

theorem similarities_formula:
  "length (similarities matrix target) = length matrix
   \<and> (\<forall>i < length matrix.
         similarities matrix target ! i
           = dot (matrix ! i) target
               / (np_norm (matrix ! i) * (np_norm target + 1 / 10 ^ 6) + 1 / 10 ^ 6)
         \<and> 0 < np_norm (matrix ! i) * (np_norm target + 1 / 10 ^ 6) + 1 / 10 ^ 6)
   \<and> (map_of (enumerate_index (collab_users rows)) u = Some t \<and> rating_matrix rows = Inr matrix
        \<longrightarrow> collab_scores rows u
              = Inr (Some (zero_rated (enumerate_index (collab_articles rows)) u
                             (vec_matmul (similarities matrix (matrix ! t)) matrix
                                (length (collab_articles rows)))
                             rows)))"
proof (intro conjI allI impI)
  show "length (similarities matrix target) = length matrix"
    by (simp add: similarities_def)
next
  fix i assume "i < length matrix"
  then show "similarities matrix target ! i
           = dot (matrix ! i) target
               / (np_norm (matrix ! i) * (np_norm target + 1 / 10 ^ 6) + 1 / 10 ^ 6)"
    by (rule similarities_nth)
  show "0 < np_norm (matrix ! i) * (np_norm target + 1 / 10 ^ 6) + 1 / 10 ^ 6"
    by (rule denominator_positive)
next
  assume a: "map_of (enumerate_index (collab_users rows)) u = Some t
             \<and> rating_matrix rows = Inr matrix"
  then have "rows \<noteq> []" by (auto simp: collab_users_def enumerate_index_def)
  with a show "collab_scores rows u
              = Inr (Some (zero_rated (enumerate_index (collab_articles rows)) u
                             (vec_matmul (similarities matrix (matrix ! t)) matrix
                                (length (collab_articles rows)))
                             rows))"
    by (simp add: collab_scores_def)
qed

lemma div_eq_cancel:
  fixes a b c :: real
  assumes "a / b = a / c" "0 < a" "0 < b"
  shows "b = c"
proof -
  have "0 < a / b" using assms by simp
  then have "c \<noteq> 0" using assms(1) by auto
  then show ?thesis using assms by (simp add: field_simps)
qed

text \<open>
  The claim as stated fails. In the rating matrix of the example, user 1 has the row
  \<open>[3, 4]\<close> and user 2 the row \<open>[3, 0]\<close>. With user 1 as the target, no constant \<open>\<epsilon>\<close>
  makes both similarities equal to \<open>(u \<cdot> target) / (\<parallel>u\<parallel> \<parallel>target\<parallel> + \<epsilon>)\<close>: the code
  adds \<open>1e-6 (\<parallel>u\<parallel> + 1)\<close> to the product of the norms, which differs from row to row.
\<close>

theorem similarities_counterexample:
  "rating_matrix example_ratings = Inr [[3, 4], [3, 0]]
   \<and> \<not> (\<exists>\<epsilon>. similarities [[3, 4], [3, 0]] [3, 4]
              = map (\<lambda>u. dot u [3, 4] / (np_norm u * np_norm [3, 4] + \<epsilon>)) [[3, 4], [3, 0]])"
proof (intro conjI notI)
  show "rating_matrix example_ratings = Inr [[3, 4], [3, 0]]" by (rule example_rating_matrix)
next
  assume "\<exists>\<epsilon>. similarities [[3, 4], [3, 0]] [3, 4]
              = map (\<lambda>u. dot u [3, 4] / (np_norm u * np_norm [3, 4] + \<epsilon>)) [[3, 4], [3, 0]]"
  then obtain \<epsilon> :: real where
    e: "similarities [[3, 4], [3, 0]] [3, 4]
          = map (\<lambda>u. dot u [3, 4] / (np_norm u * np_norm [3, 4] + \<epsilon>)) [[3, 4], [3, 0]]"
    by blast
  have m: "map (\<lambda>u. dot u [3, 4] / (np_norm u * np_norm [3, 4] + \<epsilon>)) [[3, 4], [3, 0]]
          = [25 / (25 + \<epsilon>), 9 / (15 + \<epsilon>)]"
    by (simp add: np_norm_def dot_def sqrt25 sqrt9)
  have "[25 / (5 * (5 + 1 / 10 ^ 6) + 1 / 10 ^ 6), 9 / (3 * (5 + 1 / 10 ^ 6) + 1 / 10 ^ 6)]
          = [25 / (25 + \<epsilon>), 9 / (15 + \<epsilon>)]"
    using example_similarities e m by (rule trans [OF trans [OF sym]])
  note c = this [unfolded list.inject]
  have a: "(25 :: real) / (5 * (5 + 1 / 10 ^ 6) + 1 / 10 ^ 6) = 25 / (25 + \<epsilon>)"
    by (rule c [THEN conjunct1])
  have b: "(9 :: real) / (3 * (5 + 1 / 10 ^ 6) + 1 / 10 ^ 6) = 9 / (15 + \<epsilon>)"
    by (rule c [THEN conjunct2, THEN conjunct1])
  from div_eq_cancel [OF a] have "25 + \<epsilon> = 5 * (5 + 1 / 10 ^ 6) + 1 / 10 ^ 6" by simp
  moreover from div_eq_cancel [OF b] have "15 + \<epsilon> = 3 * (5 + 1 / 10 ^ 6) + 1 / 10 ^ 6" by simp
  ultimately show False by simp
qed

lemma fst_enumerate_index: "map fst (enumerate_index xs) = xs"
  by (simp add: enumerate_index_def)

lemma enumerate_index_nth:
  assumes "distinct xs" "i < length xs"
  shows "map_of (enumerate_index xs) (xs ! i) = Some i"
  using map_of_zip_nth [of xs "[0..<length xs]" i] assms by (simp add: enumerate_index_def)

lemma enumerate_index_None: "map_of (enumerate_index xs) x = None \<longleftrightarrow> x \<notin> set xs"
  by (metis fst_enumerate_index map_of_eq_None_iff set_map)

lemma fill_matrix_returns:
  assumes "\<forall>r \<in> set rows. fb_user_id r \<in> set us \<and> fb_article_id r \<in> set arts"
  shows "\<exists>m. fill_matrix (enumerate_index us) (enumerate_index arts) m0 rows = Inr m"
  using assms
proof (induction rows arbitrary: m0)
  case Nil
  then show ?case by simp
next
  case (Cons r rows)
  then obtain i j where "map_of (enumerate_index us) (fb_user_id r) = Some i"
    "map_of (enumerate_index arts) (fb_article_id r) = Some j"
    using enumerate_index_None [of us "fb_user_id r"] enumerate_index_None [of arts "fb_article_id r"]
    by auto
  with Cons show ?case by simp
qed

lemma rating_matrix_returns: "\<exists>m. rating_matrix rows = Inr m"
  unfolding rating_matrix_def Let_def
  by (rule fill_matrix_returns) (simp add: collab_users_def collab_articles_def)

lemma length_zero_rated: "length (zero_rated ai u sc rows) = length sc"
  by (induction ai u sc rows rule: zero_rated.induct) (auto split: option.splits)

lemma update_zero_keeps:
  fixes sc :: vec
  shows "j < length sc \<Longrightarrow> sc ! j = 0 \<Longrightarrow> sc[x := 0] ! j = 0"
  by (cases "x = j") auto

lemma zero_rated_keeps_zero:
  "j < length sc \<Longrightarrow> sc ! j = 0 \<Longrightarrow> zero_rated ai u sc rows ! j = 0"
proof (induction ai u sc rows rule: zero_rated.induct)
  case (1 ai u sc)
  then show ?case by simp
next
  case (2 ai u sc r rows)
  then show ?case by (auto simp: update_zero_keeps split: option.splits)
qed

lemma zero_rated_zeroes:
  assumes "r \<in> set rows" "fb_user_id r = u" "map_of ai (fb_article_id r) = Some j"
    "j < length sc"
  shows "zero_rated ai u sc rows ! j = 0"
  using assms
proof (induction ai u sc rows rule: zero_rated.induct)
  case (1 ai u sc)
  then show ?case by simp
next
  case (2 ai u sc x rows)
  show ?case
  proof (cases "x = r")
    case True
    with 2 show ?thesis by (simp add: zero_rated_keeps_zero)
  next
    case False
    with 2 show ?thesis by (auto split: option.splits)
  qed
qed

lemma collab_scores_returns:
  "collab_scores rows u = Inr None
   \<or> (\<exists>sc. collab_scores rows u = Inr (Some sc) \<and> length sc = length (collab_articles rows))"
  using rating_matrix_returns [of rows]
  by (auto simp: collab_scores_def Let_def length_zero_rated vec_matmul_def split: option.splits)

lemma collab_scores_zero_rated:
  assumes "collab_scores rows u = Inr (Some sc)" "r \<in> set rows" "fb_user_id r = u"
    "map_of (enumerate_index (collab_articles rows)) (fb_article_id r) = Some j"
    "j < length (collab_articles rows)"
  shows "sc ! j = 0"
proof -
  from assms(1) obtain sc0 where
    sc: "sc = zero_rated (enumerate_index (collab_articles rows)) u sc0 rows"
    and l: "length sc0 = length (collab_articles rows)"
    by (auto simp: collab_scores_def Let_def vec_matmul_def split: if_splits option.splits sum.splits)
  show ?thesis unfolding sc
    using assms(2,3,4) by (rule zero_rated_zeroes) (simp add: l assms(5))
qed

lemma set_py_take: "set (py_take k xs) \<subseteq> set xs"
  by (auto simp: py_take_def dest: in_set_takeD)

lemma valid_argsort_set: "valid_argsort argsort \<Longrightarrow> set (argsort xs) = {0..<length xs}"
  by (metis valid_argsort_def mset_eq_setD set_upt)

lemma valid_argsort_distinct: "valid_argsort argsort \<Longrightarrow> distinct (argsort xs)"
  by (metis valid_argsort_def mset_eq_imp_distinct_iff distinct_upt)

lemma valid_argsort_descending:
  "valid_argsort argsort \<Longrightarrow> sorted_wrt (\<lambda>a b. xs ! b \<le> xs ! a) (rev (argsort xs))"
  by (simp add: valid_argsort_def sorted_wrt_rev sorted_map)

lemma stable_argsort_valid: "valid_argsort stable_argsort"
  by (simp add: valid_argsort_def stable_argsort_def)

lemma filter_take_descending:
  fixes f :: "'a \<Rightarrow> real"
  assumes "sorted_wrt (\<lambda>a b. f b \<le> f a) L"
  shows "filter (\<lambda>i. 0 < f i) (take n L) = take n (filter (\<lambda>i. 0 < f i) L)"
  using assms
proof (induction L arbitrary: n)
  case Nil
  then show ?case by simp
next
  case (Cons x L)
  show ?case
  proof (cases n)
    case 0
    then show ?thesis by simp
  next
    case (Suc m)
    show ?thesis
    proof (cases "0 < f x")
      case True
      with Cons Suc show ?thesis by simp
    next
      case False
      with Cons.prems have "\<forall>y \<in> set L. \<not> 0 < f y" by fastforce
      then have "filter (\<lambda>i. 0 < f i) L = []" "filter (\<lambda>i. 0 < f i) (take m L) = []"
        by (auto simp: filter_empty_conv dest: in_set_takeD)
      with False Suc show ?thesis by simp
    qed
  qed
qed

lemma distinct_collab_articles: "distinct (collab_articles rows)"
  by (simp add: collab_articles_def)

lemma set_collab_articles: "set (collab_articles rows) = fb_article_id ` set rows"
  by (simp add: collab_articles_def)

lemma collaborative_recs_Some:
  assumes "collab_scores rows u = Inr (Some sc)" "0 \<le> k"
  shows "collaborative_recs argsort rows u k
           = Inr (map (\<lambda>i. collab_articles rows ! i)
                   (filter (\<lambda>i. 0 < sc ! i) (take (nat k) (rev (argsort sc)))))"
  using assms by (simp add: collaborative_recs_def py_take_def)

lemma top_indices_properties:
  fixes sc :: vec and n :: nat and argsort :: "vec \<Rightarrow> nat list"
  assumes v: "valid_argsort argsort"
  defines "idxs \<equiv> filter (\<lambda>i. 0 < sc ! i) (take n (rev (argsort sc)))"
  shows "distinct idxs"
    and "set idxs \<subseteq> {i. i < length sc \<and> 0 < sc ! i}"
    and "length idxs = min n (card {i. i < length sc \<and> 0 < sc ! i})"
    and "sorted (rev (map (\<lambda>i. sc ! i) idxs))"
    and "\<forall>i \<in> set idxs. \<forall>j. j < length sc \<and> j \<notin> set idxs \<longrightarrow> sc ! j \<le> sc ! i"
proof -
  let ?L = "rev (argsort sc)"
  let ?P = "\<lambda>i. 0 < sc ! i"
  have dL: "distinct ?L" using valid_argsort_distinct [OF v] by simp
  have sL: "set ?L = {0..<length sc}" using valid_argsort_set [OF v] by simp
  have desc: "sorted_wrt (\<lambda>a b. sc ! b \<le> sc ! a) ?L" by (rule valid_argsort_descending [OF v])
  have alt: "idxs = take n (filter ?P ?L)"
    unfolding idxs_def by (rule filter_take_descending [OF desc])
  show "distinct idxs" unfolding idxs_def using dL by simp
  show sub: "set idxs \<subseteq> {i. i < length sc \<and> 0 < sc ! i}"
    unfolding idxs_def using sL by (auto dest: in_set_takeD)
  have "length (filter ?P ?L) = card ({i. ?P i} \<inter> set ?L)"
    using dL by (rule distinct_length_filter)
  also have "{i. ?P i} \<inter> set ?L = {i. i < length sc \<and> 0 < sc ! i}"
    unfolding sL by auto
  finally show "length idxs = min n (card {i. i < length sc \<and> 0 < sc ! i})"
    by (simp add: alt min.commute)
  have "sorted_wrt (\<lambda>a b. sc ! b \<le> sc ! a) idxs"
    unfolding idxs_def by (intro sorted_wrt_filter sorted_wrt_take desc)
  then show "sorted (rev (map (\<lambda>i. sc ! i) idxs))"
    by (simp add: sorted_wrt_rev sorted_wrt_map)
  show "\<forall>i \<in> set idxs. \<forall>j. j < length sc \<and> j \<notin> set idxs \<longrightarrow> sc ! j \<le> sc ! i"
  proof (intro ballI allI impI)
    fix i j assume i: "i \<in> set idxs" and j: "j < length sc \<and> j \<notin> set idxs"
    from i have it: "i \<in> set (take n ?L)" and ip: "0 < sc ! i" by (auto simp: idxs_def)
    have split: "set ?L = set (take n ?L) \<union> set (drop n ?L)"
      by (metis append_take_drop_id set_append)
    have "j \<in> set ?L" unfolding sL using j by simp
    then have "j \<in> set (take n ?L) \<union> set (drop n ?L)" unfolding split [symmetric] .
    then consider "j \<in> set (take n ?L)" | "j \<in> set (drop n ?L)" by blast
    then show "sc ! j \<le> sc ! i"
    proof cases
      case 1
      with j have "\<not> 0 < sc ! j" by (auto simp: idxs_def)
      with ip show ?thesis by simp
    next
      case 2
      have "sorted_wrt (\<lambda>a b. sc ! b \<le> sc ! a) (take n ?L @ drop n ?L)"
        using desc by (simp only: append_take_drop_id)
      then show ?thesis using it 2 unfolding sorted_wrt_append by blast
    qed
  qed
qed

text \<open>
  Claim C4. \<open>_collaborative_recs\<close> returns a list and raises nothing. The list holds no
  article the target user has rated. When the scores were computed and \<open>top_k\<close> is not
  negative, the list names the columns of positive score only,
  \<open>min(top_k, number of positive columns)\<close> of them and each once, by descending score,
  and no column left out scores more than one that is in the list.
\<close>

theorem collaborative_recs_top_unrated:
  assumes "valid_argsort argsort"
  shows "\<exists>ids. collaborative_recs argsort rows u k = Inr ids
     \<and> (\<forall>r \<in> set rows. fb_user_id r = u \<longrightarrow> fb_article_id r \<notin> set ids)
     \<and> (collab_scores rows u = Inr None \<longrightarrow> ids = [])
     \<and> (\<forall>sc. collab_scores rows u = Inr (Some sc) \<and> 0 \<le> k \<longrightarrow>
          (\<exists>idxs. ids = map (\<lambda>i. collab_articles rows ! i) idxs
             \<and> distinct idxs
             \<and> set idxs \<subseteq> {i. i < length sc \<and> 0 < sc ! i}
             \<and> length idxs = min (nat k) (card {i. i < length sc \<and> 0 < sc ! i})
             \<and> sorted (rev (map (\<lambda>i. sc ! i) idxs))
             \<and> (\<forall>i \<in> set idxs. \<forall>j. j < length sc \<and> j \<notin> set idxs \<longrightarrow> sc ! j \<le> sc ! i)))"
proof -
  from collab_scores_returns [of rows u] show ?thesis
  proof
    assume n: "collab_scores rows u = Inr None"
    then have "collaborative_recs argsort rows u k = Inr []"
      by (simp add: collaborative_recs_def)
    with n show ?thesis by simp
  next
    assume "\<exists>sc. collab_scores rows u = Inr (Some sc) \<and> length sc = length (collab_articles rows)"
    then obtain sc where sc: "collab_scores rows u = Inr (Some sc)"
      and len: "length sc = length (collab_articles rows)" by blast
    let ?arts = "collab_articles rows"
    let ?top = "py_take k (rev (argsort sc))"
    let ?ids = "map (\<lambda>i. ?arts ! i) (filter (\<lambda>i. 0 < sc ! i) ?top)"
    have r: "collaborative_recs argsort rows u k = Inr ?ids"
      using sc by (simp add: collaborative_recs_def)
    have top: "set ?top \<subseteq> {0..<length sc}"
      using set_py_take [of k "rev (argsort sc)"] valid_argsort_set [OF assms, of sc] by simp
    have unrated: "fb_article_id r \<notin> set ?ids" if "r \<in> set rows" "fb_user_id r = u" for r
    proof
      assume "fb_article_id r \<in> set ?ids"
      then obtain i where i: "i \<in> set ?top" "0 < sc ! i" "fb_article_id r = ?arts ! i"
        by auto
      then have b: "i < length ?arts" using top len by auto
      then have "map_of (enumerate_index ?arts) (fb_article_id r) = Some i"
        unfolding i(3) using distinct_collab_articles by (intro enumerate_index_nth)
      from collab_scores_zero_rated [OF sc that this b] i(2) show False by simp
    qed
    have ranked: "\<exists>idxs. ?ids = map (\<lambda>i. ?arts ! i) idxs
             \<and> distinct idxs
             \<and> set idxs \<subseteq> {i. i < length sc' \<and> 0 < sc' ! i}
             \<and> length idxs = min (nat k) (card {i. i < length sc' \<and> 0 < sc' ! i})
             \<and> sorted (rev (map (\<lambda>i. sc' ! i) idxs))
             \<and> (\<forall>i \<in> set idxs. \<forall>j. j < length sc' \<and> j \<notin> set idxs \<longrightarrow> sc' ! j \<le> sc' ! i)"
      if "collab_scores rows u = Inr (Some sc') \<and> 0 \<le> k" for sc'
    proof -
      from that sc have e: "sc' = sc" and k: "0 \<le> k" by simp_all
      let ?idxs = "filter (\<lambda>i. 0 < sc ! i) (take (nat k) (rev (argsort sc)))"
      have "?ids = map (\<lambda>i. ?arts ! i) ?idxs" using k by (simp add: py_take_def)
      with top_indices_properties [OF assms, of sc "nat k"] show ?thesis
        unfolding e by blast
    qed
    show ?thesis
      using r unrated ranked sc by (intro exI [of _ ?ids]) auto
  qed
qed

lemma example_users: "collab_users example_ratings = [1, 2]"
  by (simp add: collab_users_def example_ratings_def)

lemma example_articles: "collab_articles example_ratings = [1, 2]"
  by (simp add: collab_articles_def example_ratings_def)

lemma example_index: "enumerate_index [1, 2] = [(1, 0), (2, 1)]"
  by (simp add: enumerate_index_def upt_conv_Cons)

lemma example_collab_scores:
  "\<exists>x. 0 < x \<and> collab_scores example_ratings 2 = Inr (Some [0, x])"
proof -
  have s: "similarities [[3, 4], [3, 0]] [3, 0]
             = [9 / (5 * (3 + 1 / 10 ^ 6) + 1 / 10 ^ 6), 9 / (3 * (3 + 1 / 10 ^ 6) + 1 / 10 ^ 6)]"
    by (simp add: similarities_def np_norm_def dot_def sqrt25 sqrt9)
  have "collab_scores example_ratings 2
          = Inr (Some [0, 9 / (5 * (3 + 1 / 10 ^ 6) + 1 / 10 ^ 6) * 4
                            + 9 / (3 * (3 + 1 / 10 ^ 6) + 1 / 10 ^ 6) * 0])"
    unfolding collab_scores_def example_users example_articles example_index example_rating_matrix
    by (simp add: s vec_matmul_def example_ratings_def upt_conv_Cons del: mult_zero_right)
  then show ?thesis by (intro exI [of _ "9 / (5 * (3 + 1 / 10 ^ 6) + 1 / 10 ^ 6) * 4
                            + 9 / (3 * (3 + 1 / 10 ^ 6) + 1 / 10 ^ 6) * 0"]) simp
qed

lemma example_recs: "collaborative_recs stable_argsort example_ratings 2 5 = Inr [2]"
proof -
  from example_collab_scores obtain x :: real where x: "0 < x"
    and c: "collab_scores example_ratings 2 = Inr (Some [0, x])" by blast
  have "stable_argsort [0, x] = [0, 1]"
    using x by (simp add: stable_argsort_def upt_conv_Cons)
  then show ?thesis
    using x by (simp add: collaborative_recs_def c py_take_def example_articles)
qed

theorem similarities_formula_witness:
  "length (similarities [[3, 4], [3, 0]] [3, 4]) = 2
   \<and> similarities [[3, 4], [3, 0]] [3, 4] ! 1 = 9 / (3 * (5 + 1 / 10 ^ 6) + 1 / 10 ^ 6)
   \<and> collab_scores example_ratings 1
       = Inr (Some (zero_rated (enumerate_index (collab_articles example_ratings)) 1
                      (vec_matmul (similarities [[3, 4], [3, 0]] ([[3, 4], [3, 0]] ! 0))
                         [[3, 4], [3, 0]] (length (collab_articles example_ratings)))
                      example_ratings))"
proof -
  note f = similarities_formula [of "[[3, 4], [3, 0]]" "[3, 4]" example_ratings 1 0]
  have i: "map_of (enumerate_index (collab_users example_ratings)) 1 = Some 0"
    by (simp add: example_users example_index)
  have l: "1 < length [[3, 4], [3, 0 :: real]]" by simp
  have "length (similarities [[3, 4], [3, 0]] [3, 4]) = length [[3, 4], [3, 0 :: real]]"
    by (rule f [THEN conjunct1])
  then have c1: "length (similarities [[3, 4], [3, 0]] [3, 4]) = 2" by simp
  have n: "similarities [[3, 4], [3, 0]] [3, 4] ! 1
           = dot ([[3, 4], [3, 0]] ! 1) [3, 4]
               / (np_norm ([[3, 4], [3, 0]] ! 1) * (np_norm [3, 4] + 1 / 10 ^ 6) + 1 / 10 ^ 6)"
    by (rule f [THEN conjunct2, THEN conjunct1, rule_format, OF l, THEN conjunct1])
  have v: "dot ([[3, 4], [3, 0]] ! 1) [3, 4]
               / (np_norm ([[3, 4], [3, 0]] ! 1) * (np_norm [3, 4] + 1 / 10 ^ 6) + 1 / 10 ^ 6)
           = 9 / (3 * (5 + 1 / 10 ^ 6) + 1 / 10 ^ 6)"
    by (simp add: np_norm_def dot_def sqrt25 sqrt9)
  have c2: "similarities [[3, 4], [3, 0]] [3, 4] ! 1 = 9 / (3 * (5 + 1 / 10 ^ 6) + 1 / 10 ^ 6)"
    using n v by (rule trans)
  have c3: "collab_scores example_ratings 1
       = Inr (Some (zero_rated (enumerate_index (collab_articles example_ratings)) 1
                      (vec_matmul (similarities [[3, 4], [3, 0]] ([[3, 4], [3, 0]] ! 0))
                         [[3, 4], [3, 0]] (length (collab_articles example_ratings)))
                      example_ratings))"
    by (rule f [THEN conjunct2, THEN conjunct2, THEN mp, OF conjI, OF i example_rating_matrix])
  from c1 c2 c3 show ?thesis by (intro conjI)
qed

theorem collaborative_recs_witness:
  "collaborative_recs stable_argsort example_ratings 2 5 = Inr [2]
   \<and> fb_article_id \<lparr>fb_user_id = 2, fb_article_id = 1, fb_rating = 3\<rparr> \<notin> set [2 :: int]"
proof -
  have "\<exists>ids. collaborative_recs stable_argsort example_ratings 2 5 = Inr ids
    \<and> (\<forall>r \<in> set example_ratings. fb_user_id r = 2 \<longrightarrow> fb_article_id r \<notin> set ids)"
    using collaborative_recs_top_unrated [OF stable_argsort_valid, of example_ratings 2 5]
    by (elim exE conjE) (intro exI conjI; assumption)
  then obtain ids where r: "collaborative_recs stable_argsort example_ratings 2 5 = Inr ids"
    and u: "\<forall>r \<in> set example_ratings. fb_user_id r = 2 \<longrightarrow> fb_article_id r \<notin> set ids"
    by (elim exE conjE)
  from r have e: "ids = [2]" by (simp add: example_recs)
  have m: "\<lparr>fb_user_id = 2, fb_article_id = 1, fb_rating = 3\<rparr> \<in> set example_ratings"
    by (simp add: example_ratings_def)
  have "fb_article_id \<lparr>fb_user_id = 2, fb_article_id = 1, fb_rating = 3\<rparr> \<notin> set ids"
    by (rule u [rule_format, OF m]) simp
  then have "fb_article_id \<lparr>fb_user_id = 2, fb_article_id = 1, fb_rating = 3\<rparr> \<notin> set [2 :: int]"
    unfolding e .
  with example_recs show ?thesis by (intro conjI)
qed

end
